theory Spec2Isabelle
  imports Main "HOL-Library.Sublist"
begin

section \<open>JavaScript values used by the document model\<close>

text \<open>
  Errors are values. \<open>TypeError\<close> is what JavaScript throws when a property is read
  from \<open>null\<close> or \<open>undefined\<close>; \<open>FsError\<close> is the error of \<open>fs.readFileSync\<close>
  on a file that cannot be read.
\<close>

datatype error = TypeError | FsError

definition bindE :: "error + 'a \<Rightarrow> ('a \<Rightarrow> error + 'b) \<Rightarrow> error + 'b" where
  "bindE m f = (case m of Inl e \<Rightarrow> Inl e | Inr x \<Rightarrow> f x)"

subsection \<open>Array.prototype.findIndex and Array.prototype.splice\<close>

text \<open>\<open>findIndex\<close> returns the first index whose element satisfies the test, or \<open>-1\<close>.\<close>

fun findIndex :: "('a \<Rightarrow> bool) \<Rightarrow> 'a list \<Rightarrow> int" where
  "findIndex P [] = - 1"
| "findIndex P (x # xs) =
     (if P x then 0 else (let r = findIndex P xs in if r < 0 then - 1 else r + 1))"

text \<open>
  \<open>splice(start, deleteCount, ...items)\<close>: a negative start counts from the end and is
  clamped at 0, a start beyond the end is clamped at the length.
\<close>

definition splice_start :: "int \<Rightarrow> nat \<Rightarrow> nat" where
  "splice_start i len = (if i < 0 then nat (max (int len + i) 0) else min (nat i) len)"

definition splice :: "int \<Rightarrow> nat \<Rightarrow> 'a list \<Rightarrow> 'a list \<Rightarrow> 'a list" where
  "splice i deleteCount items xs =
     (let k = splice_start i (length xs) in take k xs @ items @ drop (k + deleteCount) xs)"

subsection \<open>Strings\<close>

text \<open>
  A JavaScript string is a sequence of UTF-16 code units. Node names, attribute values,
  chunk names and paths are only compared and cut at ASCII characters, so they are byte
  lists (\<open>string\<close>). The text of a comment node and the value of a text node go through
  \<open>String.prototype.trim\<close>, whose white space lies beyond ASCII: they are lists of
  code units (\<open>ustring\<close>), a code unit being an integer from 0 to 65535, and
  \<open>ustr\<close> gives the code units of an ASCII literal.
\<close>

type_synonym ustring = "int list"

definition ustr :: "string \<Rightarrow> ustring" where
  "ustr s = map of_char s"

text \<open>
  \<open>String.prototype.trim\<close> removes leading and trailing white space and line
  terminators: the code units of ECMAScript's WhiteSpace and LineTerminator productions,
  that is U+0009 to U+000D, U+0020, U+00A0, U+FEFF, U+2028, U+2029 and the Unicode space
  separators U+1680, U+2000 to U+200A, U+202F, U+205F and U+3000. All of them are single
  code units. (U+180E, a space separator up to Unicode 6.2, is not white space in the
  specification; U+0085 never was.)
\<close>

definition isSpace :: "int \<Rightarrow> bool" where
  "isSpace c = ((0x09 \<le> c \<and> c \<le> 0x0D) \<or> c = 0x20 \<or> c = 0xA0 \<or> c = 0x1680
                \<or> (0x2000 \<le> c \<and> c \<le> 0x200A) \<or> c = 0x2028 \<or> c = 0x2029 \<or> c = 0x202F
                \<or> c = 0x205F \<or> c = 0x3000 \<or> c = 0xFEFF)"

definition trim :: "ustring \<Rightarrow> ustring" where
  "trim s = rev (dropWhile isSpace (rev (dropWhile isSpace s)))"

definition startsWith :: "'a list \<Rightarrow> 'a list \<Rightarrow> bool" where
  "startsWith s p = (take (length p) s = p)"

section \<open>The parse5 tree as a store of nodes\<close>

text \<open>
  A parse5 node is a JavaScript object; the code compares nodes by identity
  (\<open>childNode === oldNode\<close>) and mutates them through every reference, so nodes live
  in a store and are referred to by address. \<open>childNodes\<close> holds the addresses of the
  children; every \<open>childNodes\<close> array is referenced from its node only, so it is kept as
  the value of the field (a node made by \<open>mockScriptNode\<close> with \<open>src\<close> has no
  \<open>childNodes\<close> field, which is the empty list here). \<open>parentNode\<close> may be null.
  Comment nodes carry \<open>data\<close>, text nodes carry \<open>value\<close> (here \<open>text_value\<close>).

  Arrays of chunk names that the caller passes to \<open>ensureRequires\<close> are JavaScript
  objects too, which the passes splice in place: they live in the \<open>arrays\<close> part of
  the store.
\<close>

record node =
  nodeName :: string
  tagName :: "string option"
  attrs :: "(string \<times> string) list"
  data :: ustring
  text_value :: ustring
  childNodes :: "nat list"
  parentNode :: "nat option"

record store =
  nodes :: "nat \<Rightarrow> node"
  nextNode :: nat
  arrays :: "nat \<Rightarrow> string list"
  nextArray :: nat

definition setChildNodes :: "nat \<Rightarrow> nat list \<Rightarrow> store \<Rightarrow> store" where
  "setChildNodes p cs s = s\<lparr>nodes := (nodes s)(p := (nodes s p)\<lparr>childNodes := cs\<rparr>)\<rparr>"

definition setValue :: "nat \<Rightarrow> ustring \<Rightarrow> store \<Rightarrow> store" where
  "setValue n v s = s\<lparr>nodes := (nodes s)(n := (nodes s n)\<lparr>text_value := v\<rparr>)\<rparr>"

text \<open>An object literal allocates a fresh node.\<close>

definition newNode :: "node \<Rightarrow> store \<Rightarrow> nat \<times> store" where
  "newNode nd s = (nextNode s, s\<lparr>nodes := (nodes s)(nextNode s := nd), nextNode := Suc (nextNode s)\<rparr>)"

text \<open>An array literal or spread copy \<open>[...xs]\<close> allocates a fresh array.\<close>

definition newArray :: "string list \<Rightarrow> store \<Rightarrow> nat \<times> store" where
  "newArray xs s = (nextArray s, s\<lparr>arrays := (arrays s)(nextArray s := xs), nextArray := Suc (nextArray s)\<rparr>)"

section \<open>util\<close>

text \<open>
  \<open>replaceNodesWithNodes(oldNodes, newNodes)\<close>. Reading \<open>oldNodes[0].parentNode\<close>
  of an empty list, or \<open>.childNodes\<close> of a null parent, throws. An old node that is not
  among the children gives index \<open>-1\<close>, and \<open>splice(-1, 1)\<close> removes the last child.
\<close>

definition replaceStep :: "nat \<Rightarrow> int \<times> nat list \<Rightarrow> int \<times> nat list" where
  "replaceStep oldNode ic =
     (let index = findIndex (\<lambda>childNode. childNode = oldNode) (snd ic)
      in (index, splice index 1 [] (snd ic)))"

definition replaceNodesWithNodes :: "nat list \<Rightarrow> nat list \<Rightarrow> store \<Rightarrow> error + store" where
  "replaceNodesWithNodes oldNodes newNodes s =
     (case oldNodes of
        [] \<Rightarrow> Inl TypeError
      | old0 # _ \<Rightarrow>
          (case parentNode (nodes s old0) of
             None \<Rightarrow> Inl TypeError
           | Some p \<Rightarrow>
               (let ic = fold replaceStep oldNodes (0, childNodes (nodes s p))
                in Inr (setChildNodes p (splice (fst ic) 0 newNodes (snd ic)) s))))"

text \<open>
  \<open>mockScriptNode\<close> and \<open>mockStyleNode\<close>, in the branch where \<open>src\<close> (\<open>href\<close>) is a
  string: the document model always passes a chunk name there.
\<close>

definition mockScriptNode :: "string \<Rightarrow> nat option \<Rightarrow> store \<Rightarrow> nat \<times> store" where
  "mockScriptNode src parent s =
     newNode \<lparr>nodeName = ''script'', tagName = Some ''script'', attrs = [(''src'', src)],
              data = [], text_value = [], childNodes = [], parentNode = parent\<rparr> s"

definition mockStyleNode :: "string \<Rightarrow> nat option \<Rightarrow> store \<Rightarrow> nat \<times> store" where
  "mockStyleNode href parent s =
     newNode \<lparr>nodeName = ''link'', tagName = Some ''link'',
              attrs = [(''rel'', ''stylesheet''), (''href'', href)],
              data = [], text_value = [], childNodes = [], parentNode = parent\<rparr> s"

text \<open>\<open>names.map(chunkName => mock({..., parentNode}))\<close>, threading the store.\<close>

fun mapNodes :: "(string \<Rightarrow> nat option \<Rightarrow> store \<Rightarrow> nat \<times> store) \<Rightarrow> nat option \<Rightarrow> string list
                 \<Rightarrow> store \<Rightarrow> nat list \<times> store" where
  "mapNodes mk parent [] s = ([], s)"
| "mapNodes mk parent (name # rest) s =
     (let r1 = mk name parent s; r2 = mapNodes mk parent rest (snd r1)
      in (fst r1 # fst r2, snd r2))"

section \<open>Resource\<close>

datatype rtype = Script | Style | Comment | Other

record Resource =
  res_node :: nat
  res_type :: rtype
  chunkName :: "string option"
  res_data :: ustring
  htmlFilePath :: "string option"

text \<open>
  Modelled from the spec: the Resource class (\<open>./Resource\<close>) is not among the sources;
  this is the removal of the file extension that the spec's Resource Model applies to a
  \<open>src\<close> or \<open>href\<close> value to get the chunk name. The extension is the part of the
  last path segment from its last dot on, when that dot is not the segment's first
  character.
\<close>

definition removeExt :: "string \<Rightarrow> string" where
  "removeExt s =
     (let base = rev (takeWhile (\<lambda>c. c \<noteq> CHR ''/'') (rev s));
          ext = rev (takeWhile (\<lambda>c. c \<noteq> CHR ''.'') (rev base))
      in if CHR ''.'' \<in> set base \<and> Suc (length ext) < length base
         then take (length s - Suc (length ext)) s else s)"

text \<open>
  Modelled from the spec: the constructor of the Resource class, which is not among the
  sources. The spec's Resource Model says: a \<open>script\<close> node is of kind script and its
  chunk name is the \<open>src\<close> attribute value with its file extension removed, or null
  without \<open>src\<close>; a \<open>link\<close> with \<open>rel=stylesheet\<close> or a \<open>style\<close> node is of
  kind style with the \<open>href\<close> value (extension stripped) or null for an inline style
  block; a \<open>#comment\<close> node is of kind comment and carries its trimmed text; every
  other node is of kind other.
\<close>

definition Resource_new :: "store \<Rightarrow> nat \<Rightarrow> string option \<Rightarrow> Resource" where
  "Resource_new s n path =
     (let nd = nodes s n in
      if nodeName nd = ''script'' then
        \<lparr>res_node = n, res_type = Script,
         chunkName = map_option removeExt (map_of (attrs nd) ''src''),
         res_data = [], htmlFilePath = path\<rparr>
      else if nodeName nd = ''style''
              \<or> (nodeName nd = ''link'' \<and> map_of (attrs nd) ''rel'' = Some ''stylesheet'') then
        \<lparr>res_node = n, res_type = Style,
         chunkName = (if nodeName nd = ''link''
                      then map_option removeExt (map_of (attrs nd) ''href'') else None),
         res_data = [], htmlFilePath = path\<rparr>
      else if nodeName nd = ''#comment'' then
        \<lparr>res_node = n, res_type = Comment, chunkName = None,
         res_data = trim (data nd), htmlFilePath = path\<rparr>
      else
        \<lparr>res_node = n, res_type = Other, chunkName = None, res_data = [], htmlFilePath = path\<rparr>)"

text \<open>
  Modelled from the spec: \<open>Resource.clone\<close>, not among the sources. The copy shares no
  mutable state with the original and keeps the reference to the wrapped node; resources
  are values here, so the copy is the resource itself.
\<close>

definition Resource_clone :: "Resource \<Rightarrow> Resource" where
  "Resource_clone r = r"

section \<open>HTMLDocument\<close>

record HTMLDocument =
  document :: "nat option"
  headNode :: "nat option"
  bodyNode :: "nat option"
  scriptResources :: "Resource list"
  stylesResources :: "Resource list"
  scriptInjectCommentNode :: "nat option"
  styleInjectCommentNode :: "nat option"
  htmlTemplateFilePath :: "string option"

subsection \<open>Scanning\<close>

text \<open>The body of the \<open>forEach\<close> in \<open>_findScriptStyleTagComment\<close>.\<close>

definition scanChild :: "store \<Rightarrow> HTMLDocument \<Rightarrow> nat \<Rightarrow> HTMLDocument" where
  "scanChild s d childNode =
     (let resource = Resource_new s childNode (htmlTemplateFilePath d) in
      if res_type resource = Script then
        d\<lparr>scriptResources := scriptResources d @ [resource]\<rparr>
      else if res_type resource = Style then
        d\<lparr>stylesResources := stylesResources d @ [resource]\<rparr>
      else if res_type resource = Comment then
        (if res_data resource = ustr ''SCRIPT'' then
           d\<lparr>scriptInjectCommentNode := Some (res_node resource)\<rparr>
         else if res_data resource = ustr ''STYLE'' then
           d\<lparr>styleInjectCommentNode := Some (res_node resource)\<rparr>
         else d)
      else d)"

text \<open>
  \<open>_findScriptStyleTagComment(node)\<close> reads only \<open>node.childNodes\<close>
  (\<open>ensureRequires\<close> calls it on \<open>{childNodes: lefts}\<close>), so it takes the child list.
\<close>

definition findScriptStyleTagComment :: "store \<Rightarrow> nat list \<Rightarrow> HTMLDocument \<Rightarrow> HTMLDocument" where
  "findScriptStyleTagComment s cs d = foldl (scanChild s) d cs"

definition findOutAll_inner :: "store \<Rightarrow> HTMLDocument \<Rightarrow> nat \<Rightarrow> HTMLDocument" where
  "findOutAll_inner s d n =
     (if nodeName (nodes s n) = ''head'' then
        findScriptStyleTagComment s (childNodes (nodes s n)) (d\<lparr>headNode := Some n\<rparr>)
      else if nodeName (nodes s n) = ''body'' then
        findScriptStyleTagComment s (childNodes (nodes s n)) (d\<lparr>bodyNode := Some n\<rparr>)
      else d)"

definition findOutAll_outer :: "store \<Rightarrow> HTMLDocument \<Rightarrow> nat \<Rightarrow> HTMLDocument" where
  "findOutAll_outer s d n =
     (if nodeName (nodes s n) = ''html'' then foldl (findOutAll_inner s) d (childNodes (nodes s n))
      else d)"

definition findOutAll :: "store \<Rightarrow> HTMLDocument \<Rightarrow> error + HTMLDocument" where
  "findOutAll s d =
     (case document d of
        None \<Rightarrow> Inl TypeError
      | Some root \<Rightarrow> Inr (foldl (findOutAll_outer s) d (childNodes (nodes s root))))"

subsection \<open>Reconciliation\<close>

text \<open>
  The first loop of \<open>_ensureRequireScripts\<close> and \<open>_ensureRequireStyles\<close>: each
  scanned resource removes the first occurrence of its chunk name from the working
  array, in place. A resource without chunk name (\<open>null\<close>) matches no name.
\<close>

definition removeHasInject :: "nat \<Rightarrow> store \<Rightarrow> Resource \<Rightarrow> store" where
  "removeHasInject requiresArr s resource =
     (let index = findIndex (\<lambda>one. Some one = chunkName resource) (arrays s requiresArr)
      in if index \<ge> 0
         then s\<lparr>arrays := (arrays s)(requiresArr := splice index 1 [] (arrays s requiresArr))\<rparr>
         else s)"

definition ensureRequireScripts :: "nat \<Rightarrow> HTMLDocument \<Rightarrow> store \<Rightarrow> error + (nat list \<times> store)" where
  "ensureRequireScripts requiresScripts d s0 =
     (let s = foldl (removeHasInject requiresScripts) s0 (scriptResources d);
          left = arrays s requiresScripts
      in if length left > 0 then
           (case scriptInjectCommentNode d of
              Some c \<Rightarrow>
                (let r = mapNodes mockScriptNode (parentNode (nodes s c)) left s
                 in bindE (replaceNodesWithNodes [c] (fst r) (snd r)) (\<lambda>s'. Inr (fst r, s')))
            | None \<Rightarrow>
                (let r = mapNodes mockScriptNode (bodyNode d) left s
                 in case bodyNode d of
                      None \<Rightarrow> Inl TypeError
                    | Some b \<Rightarrow>
                        Inr (fst r, setChildNodes b (childNodes (nodes (snd r) b) @ fst r) (snd r))))
         else Inr ([], s))"

definition ensureRequireStyles :: "nat \<Rightarrow> HTMLDocument \<Rightarrow> store \<Rightarrow> error + (nat list \<times> store)" where
  "ensureRequireStyles requiresStyles d s0 =
     (let s = foldl (removeHasInject requiresStyles) s0 (stylesResources d);
          left = arrays s requiresStyles
      in if length left > 0 then
           (case styleInjectCommentNode d of
              Some c \<Rightarrow>
                (let r = mapNodes mockStyleNode (parentNode (nodes s c)) left s
                 in bindE (replaceNodesWithNodes [c] (fst r) (snd r)) (\<lambda>s'. Inr (fst r, s')))
            | None \<Rightarrow>
                (let r = mapNodes mockStyleNode (headNode d) left s
                 in case headNode d of
                      None \<Rightarrow> Inl TypeError
                    | Some h \<Rightarrow>
                        Inr (fst r, setChildNodes h (childNodes (nodes (snd r) h) @ fst r) (snd r))))
         else Inr ([], s))"

text \<open>
  \<open>ensureRequires(requires)\<close>: \<open>requires\<close> is the address of the caller's array,
  \<open>isExtractStyle\<close> is \<open>global._isExtractStyle\<close>. Each pass gets a spread copy.
\<close>

definition ensureRequires :: "bool \<Rightarrow> nat \<Rightarrow> HTMLDocument \<times> store \<Rightarrow> error + (HTMLDocument \<times> store)" where
  "ensureRequires isExtractStyle requires ds =
     (let d = fst ds; s = snd ds;
          c1 = newArray (arrays s requires) s
      in bindE (ensureRequireScripts (fst c1) d (snd c1)) (\<lambda>r1.
           bindE (if isExtractStyle
                  then (let c2 = newArray (arrays (snd r1) requires) (snd r1)
                        in ensureRequireStyles (fst c2) d (snd c2))
                  else Inr ([], snd r1)) (\<lambda>r2.
             Inr (findScriptStyleTagComment (snd r2) (fst r1 @ fst r2) d, snd r2))))"

subsection \<open>Serialization\<close>

text \<open>
  \<open>mini\<close> and \<open>pretty\<close> walk one child list from its last index down to 0; the list is
  the \<open>childNodes\<close> array of the node \<open>p\<close> and is read again at every step. Reading
  an index beyond the end gives \<open>undefined\<close>, whose \<open>nodeName\<close> throws.
\<close>

fun mini_loop :: "nat \<Rightarrow> nat \<Rightarrow> store \<Rightarrow> error + store" where
  "mini_loop p 0 s = Inr s"
| "mini_loop p (Suc i) s =
     (let cs = childNodes (nodes s p) in
      if i \<ge> length cs then Inl TypeError
      else
        (let n = cs ! i in
         if nodeName (nodes s n) = ''#comment'' \<and> \<not> startsWith (data (nodes s n)) (ustr ''[if '') then
           mini_loop p i (setChildNodes p (splice (int i) 1 [] cs) s)
         else if nodeName (nodes s n) = ''#text'' then
           (let s1 = setValue n (trim (text_value (nodes s n))) s in
            if length (text_value (nodes s1 n)) = 0 then
              mini_loop p i (setChildNodes p (splice (int i) 1 [] (childNodes (nodes s1 p))) s1)
            else mini_loop p i s1)
         else mini_loop p i s))"

definition mini :: "nat \<Rightarrow> store \<Rightarrow> error + store" where
  "mini p s = mini_loop p (length (childNodes (nodes s p))) s"

fun pretty_loop :: "nat \<Rightarrow> nat \<Rightarrow> store \<Rightarrow> error + store" where
  "pretty_loop p 0 s = Inr s"
| "pretty_loop p (Suc i) s =
     (let cs = childNodes (nodes s p) in
      if i \<ge> length cs then Inl TypeError
      else
        (let n = cs ! i in
         if nodeName (nodes s n) \<noteq> ''#text'' then
           (if i \<ge> 1 \<and> nodeName (nodes s (cs ! (i - 1))) = ''#text''
                \<and> 0x0A \<in> set (text_value (nodes s (cs ! (i - 1)))) then Inr s
            else
              (let t = newNode \<lparr>nodeName = ''#text'', tagName = None, attrs = [], data = [],
                                text_value = [0x0A], childNodes = [],
                                parentNode = parentNode (nodes s n)\<rparr> s
               in bindE (replaceNodesWithNodes [n] [fst t, n] (snd t)) (pretty_loop p i)))
         else pretty_loop p i s))"

definition pretty :: "nat \<Rightarrow> store \<Rightarrow> error + store" where
  "pretty p s = pretty_loop p (length (childNodes (nodes s p))) s"

text \<open>
  \<open>serialize()\<close>: \<open>isProduction\<close> is \<open>global._isProduction\<close>; \<open>parse5_serialize\<close>
  is the library's printer, a parameter.
\<close>

definition serialize :: "bool \<Rightarrow> (store \<Rightarrow> nat option \<Rightarrow> string) \<Rightarrow> HTMLDocument \<Rightarrow> store
                         \<Rightarrow> error + (string \<times> store)" where
  "serialize isProduction parse5_serialize d s =
     (let f = (if isProduction then mini else pretty) in
      case headNode d of
        None \<Rightarrow> Inl TypeError
      | Some h \<Rightarrow>
          bindE (f h s) (\<lambda>s1.
            case bodyNode d of
              None \<Rightarrow> Inl TypeError
            | Some b \<Rightarrow> bindE (f b s1) (\<lambda>s2. Inr (parse5_serialize s2 (document d), s2))))"

subsection \<open>Clone, cache and constructor\<close>

text \<open>
  \<open>clone()\<close>: \<open>Object.assign({}, this)\<close> copies the fields, so \<open>ret.headNode\<close> is
  the same node as \<open>this.headNode\<close>; the assignment \<open>ret.headNode.childNodes =
  [...this.headNode.childNodes]\<close> then stores a copy of the child list in that one node.
  A null \<open>headNode\<close> or \<open>bodyNode\<close> throws.
\<close>

definition clone :: "HTMLDocument \<Rightarrow> store \<Rightarrow> error + (HTMLDocument \<times> store)" where
  "clone this s =
     (let ret = this in
      case headNode ret of
        None \<Rightarrow> Inl TypeError
      | Some h \<Rightarrow>
          (case headNode this of
             None \<Rightarrow> Inl TypeError
           | Some h' \<Rightarrow>
               (let s1 = setChildNodes h (childNodes (nodes s h')) s in
                case bodyNode ret of
                  None \<Rightarrow> Inl TypeError
                | Some b \<Rightarrow>
                    (case bodyNode this of
                       None \<Rightarrow> Inl TypeError
                     | Some b' \<Rightarrow>
                         (let s2 = setChildNodes b (childNodes (nodes s1 b')) s1 in
                          Inr (ret\<lparr>stylesResources := map Resource_clone (stylesResources this),
                                    scriptResources := map Resource_clone (scriptResources this)\<rparr>,
                               s2))))))"

text \<open>
  What \<open>parse5.parse\<close> returns is a fresh tree; \<open>alloc\<close> puts a tree value into the
  store, giving every node a new address and its parent's address.
\<close>

datatype html = Html string "(string \<times> string) list" ustring ustring "html list"

fun alloc :: "nat option \<Rightarrow> html \<Rightarrow> store \<Rightarrow> nat \<times> store"
  and allocs :: "nat option \<Rightarrow> html list \<Rightarrow> store \<Rightarrow> nat list \<times> store" where
  "alloc parent (Html name as dt v kids) s =
     (let r = newNode \<lparr>nodeName = name,
                       tagName = (if take 1 name = ''#'' then None else Some name),
                       attrs = as, data = dt, text_value = v, childNodes = [],
                       parentNode = parent\<rparr> s;
          rk = allocs (Some (fst r)) kids (snd r)
      in (fst r, setChildNodes (fst r) (fst rk) (snd rk)))"
| "allocs parent [] s = ([], s)"
| "allocs parent (k # ks) s =
     (let r1 = alloc parent k s; r2 = allocs parent ks (snd r1) in (fst r1 # fst r2, snd r2))"

text \<open>The environment: \<open>path.resolve\<close>, the file system and \<open>parse5.parse\<close>.\<close>

record env =
  path_resolve :: "string \<Rightarrow> string"
  readFileSync :: "string \<Rightarrow> string option"
  parse5_parse :: "string \<Rightarrow> html"

definition DefaultHtmlTemplate :: string where
  "DefaultHtmlTemplate =
     [CHR 0x0A] @ ''<!DOCTYPE html>'' @ [CHR 0x0A] @ ''<html>'' @ [CHR 0x0A] @ ''<head>'' @ [CHR 0x0A]
     @ ''    <meta charset=\"UTF-8\">'' @ [CHR 0x0A] @ ''</head>'' @ [CHR 0x0A] @ ''<body>'' @ [CHR 0x0A]
     @ ''<!--SCRIPT-->'' @ [CHR 0x0A] @ ''</body>'' @ [CHR 0x0A] @ ''</html>'' @ [CHR 0x0A]"

text \<open>
  \<open>HTMLDocumentCacheMap\<close> is an object used as a dictionary: its keys are strings, and
  an \<open>undefined\<close> path is the key \<open>undefined\<close>.
\<close>

definition propertyKey :: "string option \<Rightarrow> string" where
  "propertyKey path = (case path of None \<Rightarrow> ''undefined'' | Some p \<Rightarrow> p)"

definition emptyDocument :: "string option \<Rightarrow> HTMLDocument" where
  "emptyDocument path =
     \<lparr>document = None, headNode = None, bodyNode = None, scriptResources = [],
      stylesResources = [], scriptInjectCommentNode = None, styleInjectCommentNode = None,
      htmlTemplateFilePath = path\<rparr>"

text \<open>
  The constructor. The cache is looked up under the path as given and filled under the
  resolved path. The result is the constructed document, the cache and the store.
\<close>

definition HTMLDocument_new ::
  "env \<Rightarrow> string option \<Rightarrow> (string \<Rightarrow> HTMLDocument option) \<times> store
   \<Rightarrow> error + (HTMLDocument \<times> (string \<Rightarrow> HTMLDocument option) \<times> store)" where
  "HTMLDocument_new e templatePath cs =
     (let cache = fst cs; s = snd cs; this = emptyDocument templatePath in
      case cache (propertyKey templatePath) of
        Some proto \<Rightarrow> bindE (clone proto s) (\<lambda>r. Inr (fst r, cache, snd r))
      | None \<Rightarrow>
          (let path' = map_option (path_resolve e) templatePath;
               this1 = this\<lparr>htmlTemplateFilePath := path'\<rparr>
           in bindE (case path' of
                       None \<Rightarrow> Inr DefaultHtmlTemplate
                     | Some p \<Rightarrow> (case readFileSync e p of None \<Rightarrow> Inl FsError | Some t \<Rightarrow> Inr t))
                (\<lambda>htmlString.
                   (let r = alloc None (parse5_parse e htmlString) s;
                        this2 = this1\<lparr>document := Some (fst r)\<rparr>
                    in bindE (findOutAll (snd r) this2) (\<lambda>this3.
                         bindE (clone this3 (snd r)) (\<lambda>c.
                           Inr (this3, cache(propertyKey path' \<mapsto> fst c), snd c)))))))"

section \<open>AutoWebPlugin\<close>

text \<open>
  \<open>options.commonsChunk\<close> is absent (\<open>undefined\<close>), \<open>null\<close> or an object of
  CommonsChunkPlugin options; a property value is a string, a list of strings, or absent.
\<close>

datatype jsval = Undefined | Str string | Strs "string list"

datatype commonsChunk_opt = CUndefined | CNull | CObject "(string \<times> jsval) list"

record pageEntry =
  template :: "string option"
  entryPath :: string
  filename :: string

record AutoWebPlugin_options =
  commonsChunk :: commonsChunk_opt
  preEntrys :: "string list option"
  postEntrys :: "string list option"
  stylePublicPath :: "string option"
  outputPagemap :: bool

record AutoWebPlugin =
  options :: AutoWebPlugin_options
  entryMap :: "(string \<times> pageEntry) list"

text \<open>
  What \<open>apply\<close> registers with the compiler: the entries (\<open>options.entry\<close>), one
  WebPlugin request per page, the CommonsChunkPlugin passes and the emit hooks.
  WebPlugin and CommonsChunkPlugin are not among the sources; constructing and applying
  one is recorded as the options it was given.
\<close>

record WebPlugin_options =
  wp_template :: "string option"
  wp_filename :: string
  wp_requires :: "jsval list"
  wp_stylePublicPath :: "string option"

record compiler =
  entry :: "(string \<times> string list) list"
  webPlugins :: "WebPlugin_options list"
  commonsChunkPlugins :: "(string \<times> jsval) list list"
  emitHooks :: nat

definition setProp :: "'k \<Rightarrow> 'v \<Rightarrow> ('k \<times> 'v) list \<Rightarrow> ('k \<times> 'v) list" where
  "setProp k v kvs = (if k \<in> fst ` set kvs then map (\<lambda>kv. if fst kv = k then (k, v) else kv) kvs
                      else kvs @ [(k, v)])"

definition Object_assign :: "(string \<times> jsval) list \<Rightarrow> commonsChunk_opt \<Rightarrow> (string \<times> jsval) list" where
  "Object_assign target source =
     (case source of
        CObject kvs \<Rightarrow> foldl (\<lambda>t kv. setProp (fst kv) (snd kv) t) target kvs
      | _ \<Rightarrow> target)"

text \<open>\<open>commonsChunk != null || typeof commonsChunk === 'object'\<close>; \<open>typeof null\<close> is \<open>object\<close>.\<close>

definition typeof_commonsChunk :: "commonsChunk_opt \<Rightarrow> string" where
  "typeof_commonsChunk c = (case c of CUndefined \<Rightarrow> ''undefined'' | CNull \<Rightarrow> ''object''
                            | CObject _ \<Rightarrow> ''object'')"

definition looseNotNull :: "commonsChunk_opt \<Rightarrow> bool" where
  "looseNotNull c = (case c of CUndefined \<Rightarrow> False | CNull \<Rightarrow> False | CObject _ \<Rightarrow> True)"

definition useCommonsChunk :: "commonsChunk_opt \<Rightarrow> bool" where
  "useCommonsChunk c = (looseNotNull c \<or> typeof_commonsChunk c = ''object'')"

text \<open>\<open>commonsChunk.name\<close>: reading a property of \<open>null\<close> or \<open>undefined\<close> throws.\<close>

definition commonsChunk_name :: "commonsChunk_opt \<Rightarrow> error + jsval" where
  "commonsChunk_name c =
     (case c of
        CObject kvs \<Rightarrow> Inr (case map_of kvs ''name'' of None \<Rightarrow> Undefined | Some v \<Rightarrow> v)
      | _ \<Rightarrow> Inl TypeError)"

definition applyPage :: "AutoWebPlugin_options \<Rightarrow> compiler \<Rightarrow> string \<times> pageEntry \<Rightarrow> error + compiler" where
  "applyPage opts c page =
     (let entryName = fst page;
          pageEntryArray = [entryPath (snd page)];
          pageEntryArray1 = (case preEntrys opts of Some pre \<Rightarrow> pre @ pageEntryArray
                             | None \<Rightarrow> pageEntryArray);
          pageEntryArray2 = (case postEntrys opts of Some post \<Rightarrow> pageEntryArray1 @ post
                             | None \<Rightarrow> pageEntryArray1);
          c1 = c\<lparr>entry := setProp entryName pageEntryArray2 (entry c)\<rparr>
      in bindE (if useCommonsChunk (commonsChunk opts)
                then bindE (commonsChunk_name (commonsChunk opts)) (\<lambda>n. Inr [n, Str entryName])
                else Inr [Str entryName]) (\<lambda>reqs.
           Inr (c1\<lparr>webPlugins := webPlugins c1 @
                     [\<lparr>wp_template = template (snd page), wp_filename = entryName @ ''.html'',
                       wp_requires = reqs, wp_stylePublicPath = stylePublicPath opts\<rparr>]\<rparr>)))"

fun applyPages :: "AutoWebPlugin_options \<Rightarrow> (string \<times> pageEntry) list \<Rightarrow> compiler \<Rightarrow> error + compiler" where
  "applyPages opts [] c = Inr c"
| "applyPages opts (page # rest) c = bindE (applyPage opts c page) (applyPages opts rest)"

definition AutoWebPlugin_apply :: "AutoWebPlugin \<Rightarrow> compiler \<Rightarrow> error + compiler" where
  "AutoWebPlugin_apply this c =
     bindE (applyPages (options this) (entryMap this) c) (\<lambda>c1.
       (let c2 = (if useCommonsChunk (commonsChunk (options this))
                  then c1\<lparr>commonsChunkPlugins := commonsChunkPlugins c1 @
                            [Object_assign [(''chunks'', Strs (map fst (entryMap this)))]
                               (commonsChunk (options this))]\<rparr>
                  else c1)
        in Inr (c2\<lparr>emitHooks := Suc (emitHooks c2)\<rparr>)))"

section \<open>Vocabulary of the properties\<close>

text \<open>
  A script (style) injection marker is a comment whose trimmed text is \<open>SCRIPT\<close>
  (\<open>STYLE\<close>). \<open>scannedNodes\<close> lists the nodes \<open>_findOutAll\<close> hands to the scan, in
  scan order: the children of every \<open>head\<close> and \<open>body\<close> child of every \<open>html\<close>
  child of the root. \<open>lastOr\<close> is the last element of a list, or a default.
\<close>

definition isScriptMarker :: "store \<Rightarrow> nat \<Rightarrow> bool" where
  "isScriptMarker s n = (nodeName (nodes s n) = ''#comment'' \<and> trim (data (nodes s n)) = ustr ''SCRIPT'')"

definition isStyleMarker :: "store \<Rightarrow> nat \<Rightarrow> bool" where
  "isStyleMarker s n = (nodeName (nodes s n) = ''#comment'' \<and> trim (data (nodes s n)) = ustr ''STYLE'')"

definition scanPart :: "store \<Rightarrow> nat \<Rightarrow> nat list" where
  "scanPart s n = (if nodeName (nodes s n) = ''head'' \<or> nodeName (nodes s n) = ''body''
                   then childNodes (nodes s n) else [])"

definition scanHtml :: "store \<Rightarrow> nat \<Rightarrow> nat list" where
  "scanHtml s h = (if nodeName (nodes s h) = ''html''
                   then concat (map (scanPart s) (childNodes (nodes s h))) else [])"

definition scannedNodes :: "store \<Rightarrow> nat \<Rightarrow> nat list" where
  "scannedNodes s root = concat (map (scanHtml s) (childNodes (nodes s root)))"

definition lastOr :: "'a option \<Rightarrow> 'a list \<Rightarrow> 'a option" where
  "lastOr dflt xs = (if xs = [] then dflt else Some (last xs))"

subsection \<open>Example inputs\<close>

definition emptyStore :: store where
  "emptyStore = \<lparr>nodes = (\<lambda>_. \<lparr>nodeName = [], tagName = None, attrs = [], data = [],
                                 text_value = [], childNodes = [], parentNode = None\<rparr>),
                 nextNode = 0, arrays = (\<lambda>_. []), nextArray = 0\<rparr>"

text \<open>
  A template with two style markers and three script markers among the children of head
  and body, and one more comment \<open>SCRIPT\<close> nested in a \<open>div\<close>.
\<close>

definition twoMarkers :: html where
  "twoMarkers =
     Html ''#document'' [] [] []
       [Html ''html'' [] [] []
          [Html ''head'' [] [] []
             [Html ''#comment'' [] (ustr ''STYLE'') [] [],
              Html ''#comment'' [] (ustr '' SCRIPT '') [] []],
           Html ''body'' [] [] []
             [Html ''#comment'' [] (ustr ''SCRIPT'') [] [],
              Html ''div'' [] [] [] [Html ''#comment'' [] (ustr ''SCRIPT'') [] []],
              Html ''#comment'' [] (ustr ''STYLE'') [] [],
              Html ''#comment'' [] (ustr ''SCRIPT'') [] []]]]"

definition twoMarkersStore :: store where
  "twoMarkersStore = snd (alloc None twoMarkers emptyStore)"

text \<open>
  The tree parse5 builds for the built-in default template: doctype, \<open>html\<close>, a
  \<open>head\<close> with the \<open>meta\<close> element between white space, and a \<open>body\<close> whose
  children are white space, the comment \<open>SCRIPT\<close> and the trailing white space.
\<close>

definition defaultTree :: html where
  "defaultTree =
     Html ''#document'' [] [] []
       [Html ''#documentType'' [] (ustr ''html'') [] [],
        Html ''html'' [] [] []
          [Html ''head'' [] [] []
             [Html ''#text'' [] [] [0x0A, 0x20, 0x20, 0x20, 0x20] [],
              Html ''meta'' [(''charset'', ''UTF-8'')] [] [] [],
              Html ''#text'' [] [] [0x0A] []],
           Html ''#text'' [] [] [0x0A] [],
           Html ''body'' [] [] []
             [Html ''#text'' [] [] [0x0A] [],
              Html ''#comment'' [] (ustr ''SCRIPT'') [] [],
              Html ''#text'' [] [] [0x0A, 0x0A, 0x0A] []]]]"

text \<open>A frameset document: parse5 gives it an \<open>html\<close> with \<open>head\<close> and \<open>frameset\<close>, no \<open>body\<close>.\<close>

definition framesetTree :: html where
  "framesetTree =
     Html ''#document'' [] [] []
       [Html ''html'' [] [] []
          [Html ''head'' [] [] [] [],
           Html ''frameset'' [] [] [] [Html ''frame'' [(''src'', ''a.html'')] [] [] []]]]"

text \<open>
  An environment whose only file is \<open>/frames.html\<close>, where paths are absolute already,
  and whose parser knows the default template and the frameset template.
\<close>

definition exampleEnv :: env where
  "exampleEnv =
     \<lparr>path_resolve = (\<lambda>p. p),
      readFileSync = (\<lambda>p. if p = ''/frames.html'' then Some ''<html><frameset><frame src=a.html></frameset></html>''
                           else None),
      parse5_parse = (\<lambda>t. if t = DefaultHtmlTemplate then defaultTree else framesetTree)\<rparr>"

text \<open>
  Three documents are constructed without template path, so the second and the third are
  clones served from the cache; then the second is reconciled with \<open>[app]\<close>. The
  observation is the child list of the third document's body before and after that
  reconciliation, and the child list of the cached prototype's body after it.
\<close>

definition bodyChildren :: "HTMLDocument \<Rightarrow> store \<Rightarrow> nat list" where
  "bodyChildren d s = (case bodyNode d of None \<Rightarrow> [] | Some b \<Rightarrow> childNodes (nodes s b))"

definition cloneScenario :: "error + (nat list \<times> nat list \<times> nat list)" where
  "cloneScenario =
     bindE (HTMLDocument_new exampleEnv None (Map.empty, emptyStore)) (\<lambda>r1.
       bindE (HTMLDocument_new exampleEnv None (snd r1)) (\<lambda>r2.
         bindE (HTMLDocument_new exampleEnv None (snd r2)) (\<lambda>r3.
           (let docB = fst r2; docC = fst r3; cache = fst (snd r3); s = snd (snd r3);
                req = newArray [''app''] s
            in bindE (ensureRequires False (fst req) (docB, snd req)) (\<lambda>r4.
                 Inr (bodyChildren docC s, bodyChildren docC (snd r4),
                      (case cache ''undefined'' of None \<Rightarrow> []
                       | Some proto \<Rightarrow> bodyChildren proto (snd r4))))))))"

text \<open>
  The frameset template: what the constructor returns for it, and what reconciliation
  with \<open>[app]\<close> returns on the document that the scan of its tree yields.
\<close>

definition framesetScan :: "error + HTMLDocument \<times> store" where
  "framesetScan =
     (let r = alloc None framesetTree emptyStore
      in bindE (findOutAll (snd r) ((emptyDocument (Some ''/frames.html''))\<lparr>document := Some (fst r)\<rparr>))
           (\<lambda>d. Inr (d, snd r)))"

definition framesetReconcile :: "error + HTMLDocument \<times> store" where
  "framesetReconcile =
     bindE framesetScan (\<lambda>ds.
       (let req = newArray [''app''] (snd ds) in ensureRequires False (fst req) (fst ds, snd req)))"

text \<open>An orchestrator with one page \<open>home\<close> whose \<open>commonsChunk\<close> option is \<open>null\<close>.\<close>

definition emptyCompiler :: compiler where
  "emptyCompiler = \<lparr>entry = [], webPlugins = [], commonsChunkPlugins = [], emitHooks = 0\<rparr>"

definition homePlugin :: "commonsChunk_opt \<Rightarrow> AutoWebPlugin" where
  "homePlugin cc =
     \<lparr>options = \<lparr>commonsChunk = cc, preEntrys = None, postEntrys = None,
                 stylePublicPath = None, outputPagemap = False\<rparr>,
      entryMap = [(''home'', \<lparr>template = None, entryPath = ''/pages/home'', filename = ''home''\<rparr>)]\<rparr>"

text \<open>The error a computation ended with, if any.\<close>

definition thrown :: "error + 'a \<Rightarrow> error option" where
  "thrown r = (case r of Inl e \<Rightarrow> Some e | Inr _ \<Rightarrow> None)"

text \<open>
  What the first loop of a pass leaves of a required list: every resource with a chunk
  name removes the first occurrence of that name.
\<close>

definition leftStep :: "string list \<Rightarrow> Resource \<Rightarrow> string list" where
  "leftStep req r = (case chunkName r of None \<Rightarrow> req | Some x \<Rightarrow> remove1 x req)"

definition leftNames :: "Resource list \<Rightarrow> string list \<Rightarrow> string list" where
  "leftNames rs req = foldl leftStep req rs"


text \<open>
  The node objects \<open>mockScriptNode\<close> and \<open>mockStyleNode\<close> build, and the store after
  \<open>names.map\<close> has built one node per name with the constructor \<open>f\<close>.
\<close>

definition scriptNodeOf :: "string \<Rightarrow> nat option \<Rightarrow> node" where
  "scriptNodeOf src parent =
     \<lparr>nodeName = ''script'', tagName = Some ''script'', attrs = [(''src'', src)],
      data = [], text_value = [], childNodes = [], parentNode = parent\<rparr>"

definition styleNodeOf :: "string \<Rightarrow> nat option \<Rightarrow> node" where
  "styleNodeOf href parent =
     \<lparr>nodeName = ''link'', tagName = Some ''link'',
      attrs = [(''rel'', ''stylesheet''), (''href'', href)],
      data = [], text_value = [], childNodes = [], parentNode = parent\<rparr>"

definition allocated :: "(string \<Rightarrow> nat option \<Rightarrow> node) \<Rightarrow> nat option \<Rightarrow> string list \<Rightarrow> store \<Rightarrow> store" where
  "allocated f parent xs s =
     s\<lparr>nodes := (\<lambda>i. if nextNode s \<le> i \<and> i < nextNode s + length xs
                       then f (xs ! (i - nextNode s)) parent else nodes s i),
       nextNode := nextNode s + length xs\<rparr>"

text \<open>The child list after \<open>replaceNodesWithNodes([c], new)\<close>.\<close>

definition replaced :: "nat \<Rightarrow> nat list \<Rightarrow> nat list \<Rightarrow> nat list" where
  "replaced c new cs =
     (let index = findIndex (\<lambda>childNode. childNode = c) cs
      in splice index 0 new (splice index 1 [] cs))"

text \<open>
  The script pass and the style pass are one algorithm over the node constructor, the
  resource list, the marker and the fallback anchor.
\<close>

definition pass :: "(string \<Rightarrow> nat option \<Rightarrow> store \<Rightarrow> nat \<times> store) \<Rightarrow> Resource list \<Rightarrow> nat option
                     \<Rightarrow> nat option \<Rightarrow> nat \<Rightarrow> store \<Rightarrow> error + (nat list \<times> store)" where
  "pass mk rs marker anchor a s0 =
     (let s = foldl (removeHasInject a) s0 rs;
          left = arrays s a
      in if length left > 0 then
           (case marker of
              Some c \<Rightarrow>
                (let r = mapNodes mk (parentNode (nodes s c)) left s
                 in bindE (replaceNodesWithNodes [c] (fst r) (snd r)) (\<lambda>s'. Inr (fst r, s')))
            | None \<Rightarrow>
                (let r = mapNodes mk anchor left s
                 in case anchor of
                      None \<Rightarrow> Inl TypeError
                    | Some b \<Rightarrow>
                        Inr (fst r, setChildNodes b (childNodes (nodes (snd r) b) @ fst r) (snd r))))
         else Inr ([], s))"

text \<open>A node without its child list: the fields no pass ever changes.\<close>

definition strip :: "node \<Rightarrow> node" where
  "strip nd = nd\<lparr>childNodes := []\<rparr>"

text \<open>
  A page template with a \<open>STYLE\<close> marker in the head and, in the body, a script
  \<open>vendor.js\<close> before the \<open>SCRIPT\<close> marker. \<open>pageState\<close> is the scanned document
  with the store, in which array 0 is the required list \<open>[vendor, app]\<close>.
\<close>

definition pageTree :: html where
  "pageTree =
     Html ''#document'' [] [] []
       [Html ''html'' [] [] []
          [Html ''head'' [] [] [] [Html ''#comment'' [] (ustr ''STYLE'') [] []],
           Html ''body'' [] [] []
             [Html ''script'' [(''src'', ''vendor.js'')] [] [] [],
              Html ''#comment'' [] (ustr ''SCRIPT'') [] []]]]"

definition scanned :: "html \<Rightarrow> string list \<Rightarrow> HTMLDocument \<times> store" where
  "scanned t req =
     (let r = alloc None t emptyStore;
          s = snd (newArray req (snd r))
      in case findOutAll s ((emptyDocument None)\<lparr>document := Some (fst r)\<rparr>) of
           Inr d \<Rightarrow> (d, s)
         | Inl _ \<Rightarrow> (emptyDocument None, s))"

definition pageState :: "HTMLDocument \<times> store" where
  "pageState = scanned pageTree [''vendor'', ''app'']"

text \<open>A template whose body holds the \<open>STYLE\<close> marker before the \<open>SCRIPT\<close> marker.\<close>

definition bothMarkersTree :: html where
  "bothMarkersTree =
     Html ''#document'' [] [] []
       [Html ''html'' [] [] []
          [Html ''head'' [] [] [] [],
           Html ''body'' [] [] []
             [Html ''#comment'' [] (ustr ''STYLE'') [] [],
              Html ''#comment'' [] (ustr ''SCRIPT'') [] []]]]"

definition bothMarkersState :: "HTMLDocument \<times> store" where
  "bothMarkersState = scanned bothMarkersTree [''a'', ''b'']"

text \<open>The node names of the children of a document's body.\<close>

definition bodyNames :: "HTMLDocument \<times> store \<Rightarrow> string list" where
  "bodyNames ds = map (\<lambda>n. nodeName (nodes (snd ds) n)) (bodyChildren (fst ds) (snd ds))"

text \<open>
  The part of the state a reader of the tree sees: the document record, the nodes and the
  allocation mark. The arrays of chunk names are left out.
\<close>

definition tree_view :: "HTMLDocument \<times> store \<Rightarrow> HTMLDocument \<times> (nat \<Rightarrow> node) \<times> nat" where
  "tree_view ds = (fst ds, nodes (snd ds), nextNode (snd ds))"

text \<open>A template with an empty head and an empty body: no resources and no markers.\<close>

definition plainTree :: html where
  "plainTree =
     Html ''#document'' [] [] []
       [Html ''html'' [] [] [] [Html ''head'' [] [] [] [], Html ''body'' [] [] [] []]]"

definition plainState :: "HTMLDocument \<times> store" where
  "plainState = scanned plainTree [''app.js'']"

text \<open>
  The nodes the compact mode removes from a child list: a comment whose text does not
  begin with \<open>[if \<close>, and a text node whose trimmed value is empty.
\<close>

definition removable :: "store \<Rightarrow> nat \<Rightarrow> bool" where
  "removable s n =
     ((nodeName (nodes s n) = ''#comment'' \<and> \<not> startsWith (data (nodes s n)) (ustr ''[if ''))
      \<or> (nodeName (nodes s n) = ''#text'' \<and> trim (text_value (nodes s n)) = []))"

text \<open>
  What one run of \<open>mini\<close> over the first \<open>k\<close> children \<open>done\<close> of \<open>p\<close> leaves of
  the store \<open>s\<close>: no other child list, no node name and no comment text has changed,
  and the text nodes among \<open>done\<close> have their values trimmed.
\<close>

definition trimmed :: "nat \<Rightarrow> nat list \<Rightarrow> store \<Rightarrow> store \<Rightarrow> bool" where
  "trimmed p done s s' =
     ((\<forall>i. i \<noteq> p \<longrightarrow> childNodes (nodes s' i) = childNodes (nodes s i))
      \<and> (\<forall>i. nodeName (nodes s' i) = nodeName (nodes s i) \<and> data (nodes s' i) = data (nodes s i))
      \<and> (\<forall>i. text_value (nodes s' i)
                = (if i \<in> set done \<and> nodeName (nodes s i) = ''#text''
                   then trim (text_value (nodes s i)) else text_value (nodes s i))))"

text \<open>
  A body with a \<open>div\<close> that holds a comment and a blank text node, followed by a
  comment, a text node \<open>x\<close> between white space (a no-break space and a space before
  it, a space and U+FEFF after it) and a text node that holds a no-break space and an
  ideographic space only.
\<close>

definition nestedTree :: html where
  "nestedTree =
     Html ''#document'' [] [] []
       [Html ''html'' [] [] []
          [Html ''head'' [] [] [] [],
           Html ''body'' [] [] []
             [Html ''div'' [] [] []
                [Html ''#comment'' [] (ustr ''note'') [] [], Html ''#text'' [] [] (ustr '' '') []],
              Html ''#comment'' [] (ustr ''top'') [] [],
              Html ''#text'' [] [] [0xA0, 0x20, 0x78, 0x20, 0xFEFF] [],
              Html ''#text'' [] [] [0xA0, 0x3000] []]]]"

definition nestedState :: "HTMLDocument \<times> store" where
  "nestedState = scanned nestedTree []"

text \<open>
  The observation after compact serialization: the node names of the body's children and
  of the children of node 4 (the \<open>div\<close>), and the values of the text nodes 6 and 8.
\<close>

definition compactView :: "string \<times> store \<Rightarrow> string list \<times> string list \<times> ustring \<times> ustring" where
  "compactView r =
     (map (\<lambda>n. nodeName (nodes (snd r) n)) (childNodes (nodes (snd r) 3)),
      map (\<lambda>n. nodeName (nodes (snd r) n)) (childNodes (nodes (snd r) 4)),
      text_value (nodes (snd r) 6), text_value (nodes (snd r) 8))"

text \<open>The store after the step of \<open>mini\<close> at index \<open>k\<close> of the children of \<open>p\<close>.\<close>

definition mini_step :: "nat \<Rightarrow> nat \<Rightarrow> store \<Rightarrow> store" where
  "mini_step p k s =
     (let cs = childNodes (nodes s p); n = cs ! k in
      if nodeName (nodes s n) = ''#comment'' \<and> \<not> startsWith (data (nodes s n)) (ustr ''[if '') then
        setChildNodes p (take k cs @ drop (Suc k) cs) s
      else if nodeName (nodes s n) = ''#text'' then
        (if trim (text_value (nodes s n)) = []
         then setChildNodes p (take k cs @ drop (Suc k) cs) (setValue n (trim (text_value (nodes s n))) s)
         else setValue n (trim (text_value (nodes s n))) s)
      else s)"


text \<open>
  The node a style pass inserts into: the parent of the style marker, or the head when no
  marker is recorded.
\<close>

definition styleTarget :: "HTMLDocument \<Rightarrow> store \<Rightarrow> nat option" where
  "styleTarget d s =
     (case styleInjectCommentNode d of Some c \<Rightarrow> parentNode (nodes s c) | None \<Rightarrow> headNode d)"

text \<open>The allocated nodes that have the node \<open>m\<close> among their children.\<close>

definition parentsOf :: "store \<Rightarrow> nat \<Rightarrow> nat list" where
  "parentsOf s m = filter (\<lambda>q. m \<in> set (childNodes (nodes s q))) [0 ..< nextNode s]"



text \<open>
  The style pass inserts no node before the place of the script marker in the node \<open>p\<close>,
  whose children are \<open>pre\<close>, the script marker and \<open>post\<close>: no style name is left over;
  or the style marker is an allocated node whose parent is another node than \<open>p\<close>, or
  which stands among \<open>post\<close> and not among \<open>pre\<close>; or there is no style marker and
  the head is resolved, so that the links go to the end of the head.
\<close>

definition stylesNotBefore :: "HTMLDocument \<Rightarrow> store \<Rightarrow> nat \<Rightarrow> nat \<Rightarrow> nat list \<Rightarrow> nat list \<Rightarrow> bool" where
  "stylesNotBefore d s a p pre post =
     (leftNames (stylesResources d) (arrays s a) = []
      \<or> (case styleInjectCommentNode d of
            None \<Rightarrow> headNode d \<noteq> None
          | Some c \<Rightarrow>
              c < nextNode s
              \<and> (case parentNode (nodes s c) of
                    None \<Rightarrow> False
                  | Some q \<Rightarrow> q \<noteq> p \<or> (c \<in> set post \<and> c \<notin> set pre))))"

text \<open>
  The nodes \<open>_findOutAll\<close> would record as body: the children named \<open>body\<close> of the
  children named \<open>html\<close> of the root, in scan order. \<open>readTemplate\<close> is the text the
  constructor hands to the parser: the built-in template without path, else the content of
  the file at the resolved path.
\<close>

definition bodyCandidates :: "store \<Rightarrow> nat \<Rightarrow> nat list" where
  "bodyCandidates s root =
     filter (\<lambda>n. nodeName (nodes s n) = ''body'')
       (concat (map (\<lambda>h. if nodeName (nodes s h) = ''html'' then childNodes (nodes s h) else [])
                  (childNodes (nodes s root))))"

definition readTemplate :: "env \<Rightarrow> string option \<Rightarrow> error + string" where
  "readTemplate e templatePath =
     (case map_option (path_resolve e) templatePath of
        None \<Rightarrow> Inr DefaultHtmlTemplate
      | Some p \<Rightarrow> (case readFileSync e p of None \<Rightarrow> Inl FsError | Some t \<Rightarrow> Inr t))"

text \<open>
  An environment whose only file is \<open>/page.html\<close> with the given content, which the
  parser turns into the given tree; paths are absolute already.
\<close>

definition pageEnv :: "string \<Rightarrow> html \<Rightarrow> env" where
  "pageEnv content tree =
     \<lparr>path_resolve = (\<lambda>p. p),
      readFileSync = (\<lambda>p. if p = ''/page.html'' then Some content else None),
      parse5_parse = (\<lambda>t. tree)\<rparr>"

text \<open>
  A template whose head holds the \<open>STYLE\<close> marker, a \<open>meta\<close> and a \<open>title\<close>, and a
  template whose body holds the \<open>STYLE\<close> marker only.
\<close>

definition styledHeadEnv :: env where
  "styledHeadEnv =
     pageEnv ''<html><head><!--STYLE--><meta charset=UTF-8><title></title></head><body></body></html>''
       (Html ''#document'' [] [] []
          [Html ''html'' [] [] []
             [Html ''head'' [] [] []
                [Html ''#comment'' [] (ustr ''STYLE'') [] [],
                 Html ''meta'' [(''charset'', ''UTF-8'')] [] [] [],
                 Html ''title'' [] [] [] []],
              Html ''body'' [] [] [] []]])"


text \<open>
  Three pages of one template, with styles extracted: the documents A, B and C are
  constructed from \<open>/page.html\<close>, so B and C are clones served from the cache; B is
  reconciled with \<open>[b]\<close>, then C with \<open>[c]\<close>. The result is C with the store as it is
  before C's reconciliation, and what that reconciliation returns.
\<close>

definition threePages :: "env \<Rightarrow> error + ((HTMLDocument \<times> store) \<times> (HTMLDocument \<times> store))" where
  "threePages e =
     bindE (HTMLDocument_new e (Some ''/page.html'') (Map.empty, emptyStore)) (\<lambda>r1.
       bindE (HTMLDocument_new e (Some ''/page.html'') (snd r1)) (\<lambda>r2.
         bindE (HTMLDocument_new e (Some ''/page.html'') (snd r2)) (\<lambda>r3.
           (let docB = fst r2; docC = fst r3;
                reqB = newArray [''b''] (snd (snd r3))
            in bindE (ensureRequires True (fst reqB) (docB, snd reqB)) (\<lambda>rB.
                 (let reqC = newArray [''c''] (snd rB)
                  in bindE (ensureRequires True (fst reqC) (docC, snd reqC)) (\<lambda>rC.
                       Inr ((docC, snd rB), rC))))))))"

text \<open>The children of a node, each with its name and attributes.\<close>

definition childView :: "store \<Rightarrow> nat \<Rightarrow> (string \<times> (string \<times> string) list) list" where
  "childView s p = map (\<lambda>n. (nodeName (nodes s n), attrs (nodes s n))) (childNodes (nodes s p))"

section \<open>Properties\<close>

subsection \<open>Scanning\<close>

lemma lastOr_append: "lastOr (lastOr d xs) ys = lastOr d (xs @ ys)"
  by (simp add: lastOr_def)

lemma ustr_markers: "ustr ''STYLE'' \<noteq> ustr ''SCRIPT''"
  by (simp add: ustr_def)

lemma scanChild_script_marker:
  "scriptInjectCommentNode (scanChild s d n) = (if isScriptMarker s n then Some n else scriptInjectCommentNode d)"
  by (simp add: scanChild_def Resource_new_def isScriptMarker_def Let_def)

lemma scanChild_style_marker:
  "styleInjectCommentNode (scanChild s d n) = (if isStyleMarker s n then Some n else styleInjectCommentNode d)"
  by (simp add: scanChild_def Resource_new_def isStyleMarker_def Let_def ustr_markers)

lemma scan_script_marker:
  "scriptInjectCommentNode (findScriptStyleTagComment s cs d)
     = lastOr (scriptInjectCommentNode d) (filter (isScriptMarker s) cs)"
  unfolding findScriptStyleTagComment_def
  by (induction cs arbitrary: d rule: rev_induct) (simp_all add: lastOr_def scanChild_script_marker)

lemma scan_style_marker:
  "styleInjectCommentNode (findScriptStyleTagComment s cs d)
     = lastOr (styleInjectCommentNode d) (filter (isStyleMarker s) cs)"
  unfolding findScriptStyleTagComment_def
  by (induction cs arbitrary: d rule: rev_induct) (simp_all add: lastOr_def scanChild_style_marker)

lemma inner_script_marker:
  "scriptInjectCommentNode (findOutAll_inner s d n)
     = lastOr (scriptInjectCommentNode d) (filter (isScriptMarker s) (scanPart s n))"
  by (simp add: findOutAll_inner_def scan_script_marker scanPart_def lastOr_def)

lemma inner_fold_script_marker:
  "scriptInjectCommentNode (foldl (findOutAll_inner s) d ns)
     = lastOr (scriptInjectCommentNode d) (filter (isScriptMarker s) (concat (map (scanPart s) ns)))"
  by (induction ns arbitrary: d rule: rev_induct) (simp_all add: inner_script_marker lastOr_append, simp add: lastOr_def)


lemma inner_style_marker:
  "styleInjectCommentNode (findOutAll_inner s d n)
     = lastOr (styleInjectCommentNode d) (filter (isStyleMarker s) (scanPart s n))"
  by (simp add: findOutAll_inner_def scan_style_marker scanPart_def lastOr_def)

lemma inner_fold_style_marker:
  "styleInjectCommentNode (foldl (findOutAll_inner s) d ns)
     = lastOr (styleInjectCommentNode d) (filter (isStyleMarker s) (concat (map (scanPart s) ns)))"
  by (induction ns arbitrary: d rule: rev_induct) (simp_all add: inner_style_marker lastOr_append, simp add: lastOr_def)

lemma outer_script_marker:
  "scriptInjectCommentNode (findOutAll_outer s d h)
     = lastOr (scriptInjectCommentNode d) (filter (isScriptMarker s) (scanHtml s h))"
  by (simp add: findOutAll_outer_def inner_fold_script_marker scanHtml_def lastOr_def)

lemma outer_style_marker:
  "styleInjectCommentNode (findOutAll_outer s d h)
     = lastOr (styleInjectCommentNode d) (filter (isStyleMarker s) (scanHtml s h))"
  by (simp add: findOutAll_outer_def inner_fold_style_marker scanHtml_def lastOr_def)

lemma outer_fold_script_marker:
  "scriptInjectCommentNode (foldl (findOutAll_outer s) d hs)
     = lastOr (scriptInjectCommentNode d) (filter (isScriptMarker s) (concat (map (scanHtml s) hs)))"
  by (induction hs arbitrary: d rule: rev_induct)
     (simp_all add: outer_script_marker lastOr_append, simp add: lastOr_def)

lemma outer_fold_style_marker:
  "styleInjectCommentNode (foldl (findOutAll_outer s) d hs)
     = lastOr (styleInjectCommentNode d) (filter (isStyleMarker s) (concat (map (scanHtml s) hs)))"
  by (induction hs arbitrary: d rule: rev_induct)
     (simp_all add: outer_style_marker lastOr_append, simp add: lastOr_def)

text \<open>
  C9: when the scanned children of head and body hold several injection markers of one
  kind, the scan records the last one scanned, and raises no error: after \<open>_findOutAll\<close>
  the script (style) injection point is the last script (style) marker of the scan order,
  and stays what it was when there is none.
\<close>

theorem C9_last_marker_wins:
  assumes "document d = Some root"
  shows "\<exists>d'. findOutAll s d = Inr d'
           \<and> scriptInjectCommentNode d'
               = lastOr (scriptInjectCommentNode d) (filter (isScriptMarker s) (scannedNodes s root))
           \<and> styleInjectCommentNode d'
               = lastOr (styleInjectCommentNode d) (filter (isStyleMarker s) (scannedNodes s root))"
  using assms
  by (simp add: findOutAll_def outer_fold_script_marker outer_fold_style_marker scannedNodes_def)

theorem C9_last_marker_wins_witness:
  "document ((emptyDocument None)\<lparr>document := Some 0\<rparr>) = Some 0
   \<and> filter (isScriptMarker twoMarkersStore) (scannedNodes twoMarkersStore 0) = [4, 6, 10]
   \<and> filter (isStyleMarker twoMarkersStore) (scannedNodes twoMarkersStore 0) = [3, 9]
   \<and> (\<exists>d'. findOutAll twoMarkersStore ((emptyDocument None)\<lparr>document := Some 0\<rparr>) = Inr d'
           \<and> scriptInjectCommentNode d' = Some 10 \<and> styleInjectCommentNode d' = Some 9)"
proof -
  have sc: "filter (isScriptMarker twoMarkersStore) (scannedNodes twoMarkersStore 0) = [4, 6, 10]"
    by code_simp
  have st: "filter (isStyleMarker twoMarkersStore) (scannedNodes twoMarkersStore 0) = [3, 9]"
    by code_simp
  have d: "document ((emptyDocument None)\<lparr>document := Some 0\<rparr>) = Some 0"
    by simp
  show ?thesis
    using C9_last_marker_wins [OF d, of twoMarkersStore] sc st
    by (simp add: lastOr_def)
qed

subsection \<open>Clone and cache\<close>

text \<open>
  C1: two documents constructed from the same template path should have independently
  mutable head and body child lists. The code shares them: a clone keeps the prototype's
  \<open>headNode\<close> and \<open>bodyNode\<close> objects. With no template path, the second and third
  documents are clones from the cache; the body of the third has the children 9, 10 (the
  marker), 11. After the second document is reconciled with \<open>[app]\<close>, the injected
  script node 12 stands in the body of the third document and of the cached prototype.
\<close>

theorem C1_clone_shares_child_lists:
  "cloneScenario = Inr ([9, 10, 11], [9, 12, 11], [9, 12, 11])"
  by code_simp

subsection \<open>AutoWebPlugin.apply\<close>

text \<open>
  C8: without shared-chunk configuration, registration should succeed and every page
  should require its own chunk only. With \<open>commonsChunk\<close> null, \<open>useCommonsChunk\<close> is
  true (\<open>typeof null\<close> is \<open>object\<close>) and reading \<open>commonsChunk.name\<close> throws for the
  first page.
\<close>

theorem C8_null_commonsChunk_throws:
  "useCommonsChunk CNull \<and> AutoWebPlugin_apply (homePlugin CNull) emptyCompiler = Inl TypeError"
  by code_simp

subsection \<open>Arrays: findIndex and splice\<close>

lemma findIndex_none: "(\<forall>x\<in>set xs. \<not> P x) \<Longrightarrow> findIndex P xs = - 1"
  by (induction xs) (simp_all add: Let_def)

lemma findIndex_some:
  "(\<exists>x\<in>set xs. P x) \<Longrightarrow> findIndex P xs = int (length (takeWhile (\<lambda>x. \<not> P x) xs))"
proof (induction xs)
  case Nil
  then show ?case by simp
next
  case (Cons a xs)
  show ?case
  proof (cases "P a")
    case True
    then show ?thesis by simp
  next
    case False
    with Cons.prems have "\<exists>x\<in>set xs. P x" by simp
    from Cons.IH [OF this] False show ?thesis by (simp add: Let_def)
  qed
qed

lemma findIndex_nonneg_iff: "0 \<le> findIndex P xs \<longleftrightarrow> (\<exists>x\<in>set xs. P x)"
proof (cases "\<exists>x\<in>set xs. P x")
  case True
  then show ?thesis by (simp add: findIndex_some)
next
  case False
  then have "findIndex P xs = - 1" by (simp add: findIndex_none)
  with False show ?thesis by simp
qed

lemma splice_nat: "k \<le> length xs \<Longrightarrow> splice (int k) n items xs = take k xs @ items @ drop (k + n) xs"
  by (simp add: splice_def splice_start_def Let_def min_def)

lemma takeWhile_neq_length: "length (takeWhile (\<lambda>y. y \<noteq> x) xs) \<le> length xs"
  by (rule length_takeWhile_le)

lemma remove1_takeWhile:
  "x \<in> set xs \<Longrightarrow>
     remove1 x xs = take (length (takeWhile (\<lambda>y. y \<noteq> x) xs)) xs
                    @ drop (Suc (length (takeWhile (\<lambda>y. y \<noteq> x) xs))) xs"
  by (induction xs) auto

lemma splice_findIndex_remove1:
  "x \<in> set xs \<Longrightarrow> splice (findIndex (\<lambda>one. one = x) xs) (Suc 0) [] xs = remove1 x xs"
proof -
  assume x: "x \<in> set xs"
  then have "findIndex (\<lambda>one. one = x) xs = int (length (takeWhile (\<lambda>y. y \<noteq> x) xs))"
    using findIndex_some [of xs "\<lambda>one. one = x"] by auto
  then show ?thesis
    using x by (simp add: splice_nat takeWhile_neq_length remove1_takeWhile)
qed

subsection \<open>The removal loop\<close>

lemma removeHasInject_arrays:
  "removeHasInject a s r = s\<lparr>arrays := (arrays s)(a := leftStep (arrays s a) r)\<rparr>"
proof (cases "chunkName r")
  case None
  then show ?thesis
    by (simp add: removeHasInject_def leftStep_def findIndex_none Let_def)
next
  case (Some x)
  show ?thesis
  proof (cases "x \<in> set (arrays s a)")
    case True
    then have "0 \<le> findIndex (\<lambda>one. one = x) (arrays s a)"
      by (auto simp: findIndex_nonneg_iff)
    with True Some show ?thesis
      by (simp add: removeHasInject_def leftStep_def Let_def splice_findIndex_remove1)
  next
    case False
    then have "findIndex (\<lambda>one. one = x) (arrays s a) = - 1"
      by (auto intro: findIndex_none)
    with False Some show ?thesis
      by (simp add: removeHasInject_def leftStep_def Let_def remove1_idem)
  qed
qed

lemma removeHasInject_fold:
  "foldl (removeHasInject a) s rs = s\<lparr>arrays := (arrays s)(a := leftNames rs (arrays s a))\<rparr>"
  unfolding leftNames_def
  by (induction rs arbitrary: s) (simp_all add: removeHasInject_arrays)

lemma leftStep_subset: "set (leftStep req r) \<subseteq> set req"
  using set_remove1_subset [of _ req] by (cases "chunkName r") (simp_all add: leftStep_def)

lemma leftNames_subset: "set (leftNames rs req) \<subseteq> set req"
  unfolding leftNames_def
proof (induction rs arbitrary: req)
  case Nil
  show ?case by simp
next
  case (Cons r rs)
  have "set (foldl leftStep (leftStep req r) rs) \<subseteq> set (leftStep req r)" by (rule Cons)
  with leftStep_subset [of req r] show ?case by auto
qed



lemma subseq_remove1: "subseq (remove1 x xs) xs"
  by (induction xs) auto

lemma leftStep_subseq: "subseq (leftStep req r) req"
  by (cases "chunkName r") (simp_all add: leftStep_def subseq_remove1)

lemma leftNames_subseq: "subseq (leftNames rs req) req"
  unfolding leftNames_def
proof (induction rs arbitrary: req)
  case Nil
  show ?case by simp
next
  case (Cons r rs)
  have "subseq (foldl leftStep (leftStep req r) rs) (leftStep req r)" by (rule Cons)
  then show ?case using leftStep_subseq [of req r] by (auto intro: subseq_order.order_trans)
qed

lemma leftNames_append: "leftNames (rs @ rs') req = leftNames rs' (leftNames rs req)"
  by (simp add: leftNames_def)

lemma leftNames_self:
  "map chunkName rs = map Some xs \<Longrightarrow> leftNames rs xs = []"
  unfolding leftNames_def
  by (induction rs arbitrary: xs) (auto simp: leftStep_def)

subsection \<open>The two passes\<close>

lemma ensureRequireScripts_pass:
  "ensureRequireScripts a d s
     = pass mockScriptNode (scriptResources d) (scriptInjectCommentNode d) (bodyNode d) a s"
  by (simp add: ensureRequireScripts_def pass_def)

lemma ensureRequireStyles_pass:
  "ensureRequireStyles a d s
     = pass mockStyleNode (stylesResources d) (styleInjectCommentNode d) (headNode d) a s"
  by (simp add: ensureRequireStyles_def pass_def)

lemma mockScriptNode_newNode: "mockScriptNode = (\<lambda>x p. newNode (scriptNodeOf x p))"
  by (simp add: mockScriptNode_def scriptNodeOf_def fun_eq_iff)

lemma mockStyleNode_newNode: "mockStyleNode = (\<lambda>x p. newNode (styleNodeOf x p))"
  by (simp add: mockStyleNode_def styleNodeOf_def fun_eq_iff)

lemma allocated_Nil: "allocated f parent [] s = s"
  by (rule store.equality) (auto simp: allocated_def fun_eq_iff)

lemma allocated_Cons:
  "allocated f parent xs (snd (newNode (f x parent) s)) = allocated f parent (x # xs) s"
proof (rule store.equality)
  show "nodes (allocated f parent xs (snd (newNode (f x parent) s)))
          = nodes (allocated f parent (x # xs) s)"
  proof
    fix i
    show "nodes (allocated f parent xs (snd (newNode (f x parent) s))) i
            = nodes (allocated f parent (x # xs) s) i"
    proof (cases "i = nextNode s")
      case True
      then show ?thesis by (simp add: allocated_def newNode_def)
    next
      case False
      have "nextNode s < i \<Longrightarrow> i - nextNode s = Suc (i - Suc (nextNode s))" by arith
      with False show ?thesis
        by (auto simp: allocated_def newNode_def)
    qed
  qed
qed (simp_all add: allocated_def newNode_def)

lemma mapNodes_alloc:
  "mapNodes (\<lambda>x p. newNode (f x p)) parent xs s
     = ([nextNode s ..< nextNode s + length xs], allocated f parent xs s)"
proof (induction xs arbitrary: s)
  case Nil
  show ?case by (simp add: allocated_Nil)
next
  case (Cons x xs)
  have n: "nextNode (snd (newNode (f x parent) s)) = Suc (nextNode s)"
    and f: "fst (newNode (f x parent) s) = nextNode s"
    by (simp_all add: newNode_def)
  have "mapNodes (\<lambda>x p. newNode (f x p)) parent (x # xs) s
          = (nextNode s # [Suc (nextNode s) ..< Suc (nextNode s) + length xs],
             allocated f parent (x # xs) s)"
    by (simp only: mapNodes.simps Let_def Cons n f allocated_Cons fst_conv snd_conv)
  also have "nextNode s # [Suc (nextNode s) ..< Suc (nextNode s) + length xs]
               = [nextNode s ..< nextNode s + length (x # xs)]"
    by (simp add: upt_conv_Cons del: upt_Suc)
  finally show ?case .
qed

lemma replace_single:
  "parentNode (nodes s c) = Some p \<Longrightarrow>
     replaceNodesWithNodes [c] new s
       = Inr (setChildNodes p (replaced c new (childNodes (nodes s p))) s)"
  by (simp add: replaceNodesWithNodes_def replaceStep_def replaced_def Let_def)

lemma replace_single_null:
  "parentNode (nodes s c) = None \<Longrightarrow> replaceNodesWithNodes [c] new s = Inl TypeError"
  by (simp add: replaceNodesWithNodes_def)

lemma allocated_parent:
  assumes "\<And>x p. parentNode (f x p) = p"
  shows "parentNode (nodes (allocated f (parentNode (nodes s c)) xs s) c) = parentNode (nodes s c)"
  by (simp add: allocated_def assms)

lemma pass_result:
  assumes par: "\<And>x p. parentNode (f x p) = p"
    and L_def: "L = leftNames rs (arrays s a)"
    and s1_def: "s1 = s\<lparr>arrays := (arrays s)(a := L)\<rparr>"
    and new_def: "new = [nextNode s ..< nextNode s + length L]"
  shows "pass (\<lambda>x p. newNode (f x p)) rs marker anchor a s =
     (if L = [] then Inr ([], s1)
      else (case marker of
              Some c \<Rightarrow>
                (case parentNode (nodes s c) of
                   None \<Rightarrow> Inl TypeError
                 | Some p \<Rightarrow>
                     Inr (new, setChildNodes p
                            (replaced c new (childNodes (nodes (allocated f (Some p) L s1) p)))
                            (allocated f (Some p) L s1)))
            | None \<Rightarrow>
                (case anchor of
                   None \<Rightarrow> Inl TypeError
                 | Some b \<Rightarrow>
                     Inr (new, setChildNodes b
                            (childNodes (nodes (allocated f (Some b) L s1) b) @ new)
                            (allocated f (Some b) L s1)))))"
proof -
  have fold: "foldl (removeHasInject a) s rs = s1"
    by (simp add: removeHasInject_fold s1_def L_def)
  have s1: "arrays s1 a = L" "nodes s1 = nodes s" "nextNode s1 = nextNode s"
    by (simp_all add: s1_def)
  show ?thesis
  proof (cases "L = []")
    case True
    then show ?thesis
      by (simp add: pass_def fold s1 Let_def)
  next
    case False
    show ?thesis
    proof (cases marker)
      case None
      then show ?thesis
        using False
        by (simp add: pass_def fold s1 Let_def mapNodes_alloc new_def split: option.splits)
    next
      case (Some c)
      show ?thesis
      proof (cases "parentNode (nodes s c)")
        case None
        have "parentNode (nodes (allocated f None L s1) c) = None"
          using allocated_parent [OF par, where s = s1 and c = c and xs = L] None by (simp add: s1)
        then show ?thesis
          using False Some None
          by (simp add: pass_def fold s1 Let_def mapNodes_alloc replace_single_null bindE_def)
      next
        case (Some p)
        have "parentNode (nodes (allocated f (Some p) L s1) c) = Some p"
          using allocated_parent [OF par, where s = s1 and c = c and xs = L] Some by (simp add: s1)
        then show ?thesis
          using False \<open>marker = Some c\<close> Some
          by (simp add: pass_def fold s1 Let_def mapNodes_alloc replace_single bindE_def new_def)
      qed
    qed
  qed
qed

lemma strip_fields:
  "nodeName (strip nd) = nodeName nd" "attrs (strip nd) = attrs nd" "data (strip nd) = data nd"
  "parentNode (strip nd) = parentNode nd" "text_value (strip nd) = text_value nd"
  by (simp_all add: strip_def)

lemma strip_setChildNodes: "strip (nodes (setChildNodes p cs s) i) = strip (nodes s i)"
  by (simp add: setChildNodes_def strip_def)

lemma setChildNodes_fields:
  "arrays (setChildNodes p cs s) = arrays s" "nextArray (setChildNodes p cs s) = nextArray s"
  "nextNode (setChildNodes p cs s) = nextNode s"
  "childNodes (nodes (setChildNodes p cs s) i) = (if i = p then cs else childNodes (nodes s i))"
  by (simp_all add: setChildNodes_def)

lemma allocated_fields:
  "arrays (allocated f par xs s) = arrays s" "nextArray (allocated f par xs s) = nextArray s"
  "nextNode (allocated f par xs s) = nextNode s + length xs"
  "nodes (allocated f par xs s) i
     = (if nextNode s \<le> i \<and> i < nextNode s + length xs then f (xs ! (i - nextNode s)) par
        else nodes s i)"
  by (simp_all add: allocated_def)

text \<open>What a pass that returns has done to the store, apart from the child lists.\<close>

lemma pass_frame:
  assumes par: "\<And>x p. parentNode (f x p) = p"
    and res: "pass (\<lambda>x p. newNode (f x p)) rs marker anchor a s = Inr (ls, s')"
  shows "arrays s' = (arrays s)(a := leftNames rs (arrays s a))"
    and "nextArray s' = nextArray s"
    and "nextNode s' = nextNode s + length (leftNames rs (arrays s a))"
    and "ls = [nextNode s ..< nextNode s + length (leftNames rs (arrays s a))]"
    and "\<exists>par. \<forall>i. strip (nodes s' i)
              = (if nextNode s \<le> i \<and> i < nextNode s + length (leftNames rs (arrays s a))
                 then strip (f (leftNames rs (arrays s a) ! (i - nextNode s)) par)
                 else strip (nodes s i))"
proof -
  define L where "L = leftNames rs (arrays s a)"
  define s1 where "s1 = s\<lparr>arrays := (arrays s)(a := L)\<rparr>"
  have s1: "arrays s1 = (arrays s)(a := L)" "nextArray s1 = nextArray s"
    "nextNode s1 = nextNode s" "nodes s1 = nodes s"
    by (simp_all add: s1_def)
  note pr = pass_result [of f L rs s a s1 "[nextNode s ..< nextNode s + length L]" marker anchor,
      OF par L_def s1_def refl]
  have "(L = [] \<and> ls = [] \<and> s' = s1)
        \<or> (\<exists>p cs. L \<noteq> [] \<and> ls = [nextNode s ..< nextNode s + length L]
                   \<and> s' = setChildNodes p cs (allocated f (Some p) L s1))"
    using res unfolding pr by (auto split: if_splits option.splits)
  then consider (empty) "L = []" "ls = []" "s' = s1"
    | (some) p cs where "L \<noteq> []" "ls = [nextNode s ..< nextNode s + length L]"
        "s' = setChildNodes p cs (allocated f (Some p) L s1)"
    by blast
  then have all: "arrays s' = (arrays s)(a := L) \<and> nextArray s' = nextArray s
       \<and> nextNode s' = nextNode s + length L \<and> ls = [nextNode s ..< nextNode s + length L]
       \<and> (\<exists>par. \<forall>i. strip (nodes s' i)
              = (if nextNode s \<le> i \<and> i < nextNode s + length L
                 then strip (f (L ! (i - nextNode s)) par) else strip (nodes s i)))"
  proof cases
    case empty
    then show ?thesis by (auto simp: s1)
  next
    case some
    have "\<forall>i. strip (nodes s' i)
              = (if nextNode s \<le> i \<and> i < nextNode s + length L
                 then strip (f (L ! (i - nextNode s)) (Some p)) else strip (nodes s i))"
      by (simp add: some strip_setChildNodes allocated_fields s1)
    then show ?thesis
      using some by (auto simp: setChildNodes_fields allocated_fields s1)
  qed
  then show "arrays s' = (arrays s)(a := leftNames rs (arrays s a))"
    and "nextArray s' = nextArray s"
    and "nextNode s' = nextNode s + length (leftNames rs (arrays s a))"
    and "ls = [nextNode s ..< nextNode s + length (leftNames rs (arrays s a))]"
    and "\<exists>par. \<forall>i. strip (nodes s' i)
              = (if nextNode s \<le> i \<and> i < nextNode s + length (leftNames rs (arrays s a))
                 then strip (f (leftNames rs (arrays s a) ! (i - nextNode s)) par)
                 else strip (nodes s i))"
    unfolding L_def by blast+
qed

lemma scriptNodeOf_parent: "parentNode (scriptNodeOf x p) = p"
  by (simp add: scriptNodeOf_def)

lemma styleNodeOf_parent: "parentNode (styleNodeOf x p) = p"
  by (simp add: styleNodeOf_def)

lemma newArray_fields:
  "fst (newArray xs s) = nextArray s"
  "arrays (snd (newArray xs s)) = (arrays s)(nextArray s := xs)"
  "nextArray (snd (newArray xs s)) = Suc (nextArray s)"
  "nodes (snd (newArray xs s)) = nodes s" "nextNode (snd (newArray xs s)) = nextNode s"
  by (simp_all add: newArray_def)

subsection \<open>The caller's list\<close>

text \<open>
  C10: \<open>ensureRequires\<close> never mutates the caller's list. The array passed in holds the
  same names in the same order after the call, while the working copy of the script
  pass, the array allocated first, has lost the names already present as script resources.
\<close>

theorem C10_requires_not_mutated:
  assumes "requires < nextArray s"
    and "ensureRequires isExtractStyle requires (d, s) = Inr (d', s')"
  shows "arrays s' requires = arrays s requires
         \<and> arrays s' (nextArray s) = leftNames (scriptResources d) (arrays s requires)"
proof -
  define c1 where "c1 = snd (newArray (arrays s requires) s)"
  from assms(2) obtain ls s1 where
    p1: "ensureRequireScripts (nextArray s) d c1 = Inr (ls, s1)"
    by (auto simp: ensureRequires_def Let_def bindE_def newArray_fields c1_def split: sum.splits)
  have a1: "arrays s1 = (arrays c1)(nextArray s := leftNames (scriptResources d) (arrays c1 (nextArray s)))"
    and n1: "nextArray s1 = nextArray c1"
    using p1 by (simp_all add: ensureRequireScripts_pass mockScriptNode_newNode
        pass_frame [where f = scriptNodeOf, OF scriptNodeOf_parent])
  have c1: "arrays c1 = (arrays s)(nextArray s := arrays s requires)" "nextArray c1 = Suc (nextArray s)"
    by (simp_all add: c1_def newArray_fields)
  have k1: "arrays s1 requires = arrays s requires"
    "arrays s1 (nextArray s) = leftNames (scriptResources d) (arrays s requires)"
    using assms(1) by (simp_all add: a1 c1)
  show ?thesis
  proof (cases isExtractStyle)
    case False
    with assms(2) p1 have "s' = s1"
      by (auto simp: ensureRequires_def Let_def bindE_def newArray_fields c1_def)
    with k1 show ?thesis by simp
  next
    case True
    define c2 where "c2 = snd (newArray (arrays s1 requires) s1)"
    from True assms(2) p1 obtain lt where
      p2: "ensureRequireStyles (nextArray s1) d c2 = Inr (lt, s')"
      by (auto simp: ensureRequires_def Let_def bindE_def newArray_fields c1_def c2_def
            split: sum.splits)
    have a2: "arrays s' = (arrays c2)(nextArray s1 := leftNames (stylesResources d) (arrays c2 (nextArray s1)))"
      using p2 by (simp add: ensureRequireStyles_pass mockStyleNode_newNode
          pass_frame [where f = styleNodeOf, OF styleNodeOf_parent])
    have c2: "arrays c2 = (arrays s1)(nextArray s1 := arrays s1 requires)"
      by (simp add: c2_def newArray_fields)
    show ?thesis
      using assms(1) k1 by (simp add: a2 c2 n1 c1)
  qed
qed

lemma thrown_None: "thrown r = None \<Longrightarrow> \<exists>a b. r = Inr (a, b)"
  by (cases r) (simp_all add: thrown_def)

theorem C10_requires_not_mutated_witness:
  "0 < nextArray (snd pageState)
   \<and> (\<exists>d' s'. ensureRequires True 0 (fst pageState, snd pageState) = Inr (d', s')
        \<and> arrays s' 0 = arrays (snd pageState) 0
        \<and> arrays s' (nextArray (snd pageState))
            = leftNames (scriptResources (fst pageState)) (arrays (snd pageState) 0))
   \<and> arrays (snd pageState) 0 = [''vendor'', ''app'']
   \<and> leftNames (scriptResources (fst pageState)) (arrays (snd pageState) 0) = [''app'']"
proof -
  have a: "0 < nextArray (snd pageState)" by code_simp
  have "thrown (ensureRequires True 0 (fst pageState, snd pageState)) = None" by code_simp
  then obtain d' s' where r: "ensureRequires True 0 (fst pageState, snd pageState) = Inr (d', s')"
    by (blast dest: thrown_None)
  have v1: "arrays (snd pageState) 0 = [''vendor'', ''app'']" by code_simp
  have v2: "leftNames (scriptResources (fst pageState)) (arrays (snd pageState) 0) = [''app'']"
    by code_simp
  have e: "\<exists>d' s'. ensureRequires True 0 (fst pageState, snd pageState) = Inr (d', s')
        \<and> arrays s' 0 = arrays (snd pageState) 0
        \<and> arrays s' (nextArray (snd pageState))
            = leftNames (scriptResources (fst pageState)) (arrays (snd pageState) 0)"
    using C10_requires_not_mutated [OF a r] r by blast
  show ?thesis
    by (intro conjI) (rule a e v1 v2)+
qed

subsection \<open>Replacing the marker, appending to the anchor\<close>

lemma findIndex_found: "m \<notin> set pre \<Longrightarrow> findIndex (\<lambda>c. c = m) (pre @ m # post) = int (length pre)"
  by (induction pre) (auto simp: Let_def)

lemma replaced_found: "m \<notin> set pre \<Longrightarrow> replaced m new (pre @ m # post) = pre @ new @ post"
  by (simp add: replaced_def findIndex_found splice_nat Let_def)

lemma pass_marker:
  assumes par: "\<And>x p. parentNode (f x p) = p"
    and parent: "parentNode (nodes s m) = Some p"
    and children: "childNodes (nodes s p) = pre @ m # post"
    and once: "m \<notin> set pre"
    and alloc: "p < nextNode s"
    and left: "leftNames rs (arrays s a) = L" "L \<noteq> []"
  shows "pass (\<lambda>x p. newNode (f x p)) rs (Some m) anchor a s
           = Inr ([nextNode s ..< nextNode s + length L],
                  setChildNodes p (pre @ [nextNode s ..< nextNode s + length L] @ post)
                    (allocated f (Some p) L (s\<lparr>arrays := (arrays s)(a := L)\<rparr>)))"
proof -
  define s1 where "s1 = s\<lparr>arrays := (arrays s)(a := L)\<rparr>"
  define new where "new = [nextNode s ..< nextNode s + length L]"
  have s1: "nodes s1 = nodes s" "nextNode s1 = nextNode s" by (simp_all add: s1_def)
  have cs: "childNodes (nodes (allocated f (Some p) L s1) p) = pre @ m # post"
    using alloc children by (simp add: allocated_fields s1)
  have "pass (\<lambda>x p. newNode (f x p)) rs (Some m) anchor a s
          = Inr (new, setChildNodes p (replaced m new (childNodes (nodes (allocated f (Some p) L s1) p)))
                        (allocated f (Some p) L s1))"
    unfolding pass_result [of f L rs s a s1 new "Some m" anchor,
        OF par left(1) [symmetric] s1_def new_def]
    by (simp only: left(2) parent if_False option.case)
  then show ?thesis
    using cs unfolding s1_def new_def by (simp add: replaced_found [OF once])
qed

lemma pass_append:
  assumes par: "\<And>x p. parentNode (f x p) = p"
    and alloc: "b < nextNode s"
    and left: "leftNames rs (arrays s a) = L" "L \<noteq> []"
  shows "pass (\<lambda>x p. newNode (f x p)) rs None (Some b) a s
           = Inr ([nextNode s ..< nextNode s + length L],
                  setChildNodes b (childNodes (nodes s b) @ [nextNode s ..< nextNode s + length L])
                    (allocated f (Some b) L (s\<lparr>arrays := (arrays s)(a := L)\<rparr>)))"
proof -
  define s1 where "s1 = s\<lparr>arrays := (arrays s)(a := L)\<rparr>"
  define new where "new = [nextNode s ..< nextNode s + length L]"
  have s1: "nodes s1 = nodes s" "nextNode s1 = nextNode s" by (simp_all add: s1_def)
  have cs: "childNodes (nodes (allocated f (Some b) L s1) b) = childNodes (nodes s b)"
    using alloc by (simp add: allocated_fields s1)
  have "pass (\<lambda>x p. newNode (f x p)) rs None (Some b) a s
          = Inr (new, setChildNodes b (childNodes (nodes (allocated f (Some b) L s1) b) @ new)
                        (allocated f (Some b) L s1))"
    unfolding pass_result [of f L rs s a s1 new None "Some b",
        OF par left(1) [symmetric] s1_def new_def]
    by (simp only: left(2) if_False option.case)
  then show ?thesis
    using cs unfolding s1_def new_def by simp
qed

subsection \<open>What a reconciliation call does\<close>

lemma strip_scriptNodeOf: "strip (scriptNodeOf x par) = scriptNodeOf x par"
  by (simp add: strip_def scriptNodeOf_def)

lemma strip_styleNodeOf: "strip (styleNodeOf x par) = styleNodeOf x par"
  by (simp add: strip_def styleNodeOf_def)

lemma ensureRequires_result:
  assumes a: "a < nextArray s"
    and res: "ensureRequires flag a (d, s) = Inr (d', s')"
    and L: "L = leftNames (scriptResources d) (arrays s a)"
    and L': "L' = (if flag then leftNames (stylesResources d) (arrays s a) else [])"
    and n: "n = nextNode s"
  shows "nextNode s' = n + length L + length L'"
    and "\<exists>par par'. \<forall>i. strip (nodes s' i)
           = (if n \<le> i \<and> i < n + length L then scriptNodeOf (L ! (i - n)) par
              else if n + length L \<le> i \<and> i < n + length L + length L'
                   then styleNodeOf (L' ! (i - (n + length L))) par'
                   else strip (nodes s i))"
    and "d' = findScriptStyleTagComment s'
                ([n ..< n + length L] @ [n + length L ..< n + length L + length L']) d"
    and "arrays s' a = arrays s a"
    and "nextArray s < nextArray s'"
proof -
  define c1 where "c1 = snd (newArray (arrays s a) s)"
  have c1: "arrays c1 = (arrays s)(nextArray s := arrays s a)" "nextArray c1 = Suc (nextArray s)"
    "nodes c1 = nodes s" "nextNode c1 = n"
    by (simp_all add: c1_def newArray_fields n)
  from res obtain ls s1 where
    p1: "ensureRequireScripts (nextArray s) d c1 = Inr (ls, s1)"
    by (auto simp: ensureRequires_def Let_def bindE_def newArray_fields c1_def split: sum.splits)
  have Ls: "leftNames (scriptResources d) (arrays s a) = L" by (simp add: L)
  have L1: "leftNames (scriptResources d) (arrays c1 (nextArray s)) = L"
    by (simp add: c1 Ls)
  note f1 = pass_frame [where f = scriptNodeOf, OF scriptNodeOf_parent
      p1 [unfolded ensureRequireScripts_pass mockScriptNode_newNode]]
  have a1: "arrays s1 a = arrays s a"
    using a by (simp add: f1(1) c1)
  have n1: "nextNode s1 = n + length L" using f1(3) by (simp add: c1 Ls)
  have ls: "ls = [n ..< n + length L]" using f1(4) by (simp add: c1 Ls)
  have "\<exists>par. \<forall>i. strip (nodes s1 i)
            = (if n \<le> i \<and> i < n + length L then scriptNodeOf (L ! (i - n)) par
               else strip (nodes s i))"
    using f1(5) by (simp add: c1 Ls strip_scriptNodeOf cong: if_cong)
  then obtain par where
    st1: "\<forall>i. strip (nodes s1 i)
            = (if n \<le> i \<and> i < n + length L then scriptNodeOf (L ! (i - n)) par
               else strip (nodes s i))"
    by blast
  have all: "nextNode s' = n + length L + length L'
       \<and> (\<exists>par par'. \<forall>i. strip (nodes s' i)
           = (if n \<le> i \<and> i < n + length L then scriptNodeOf (L ! (i - n)) par
              else if n + length L \<le> i \<and> i < n + length L + length L'
                   then styleNodeOf (L' ! (i - (n + length L))) par'
                   else strip (nodes s i)))
       \<and> d' = findScriptStyleTagComment s'
                ([n ..< n + length L] @ [n + length L ..< n + length L + length L']) d
       \<and> arrays s' a = arrays s a \<and> nextArray s < nextArray s'"
  proof (cases flag)
    case False
    with res p1 have e: "s' = s1" "d' = findScriptStyleTagComment s1 (ls @ []) d"
      by (auto simp: ensureRequires_def Let_def bindE_def newArray_fields c1_def)
    have l0: "L' = []" using False L' by simp
    have "nextArray s1 = Suc (nextArray s)" by (simp add: f1(2) c1)
    with l0 e a1 n1 ls st1 show ?thesis
      by auto
  next
    case True
    define c2 where "c2 = snd (newArray (arrays s1 a) s1)"
    have c2: "arrays c2 = (arrays s1)(nextArray s1 := arrays s1 a)"
      "nodes c2 = nodes s1" "nextNode c2 = n + length L"
      by (simp_all add: c2_def newArray_fields n1)
    from True res p1 obtain lt where
      p2: "ensureRequireStyles (nextArray s1) d c2 = Inr (lt, s')"
      and d': "d' = findScriptStyleTagComment s' (ls @ lt) d"
      by (auto simp: ensureRequires_def Let_def bindE_def newArray_fields c1_def c2_def
            split: sum.splits)
    have Lt: "leftNames (stylesResources d) (arrays s a) = L'" using True by (simp add: L')
    have L2: "leftNames (stylesResources d) (arrays c2 (nextArray s1)) = L'"
      by (simp add: c2 a1 Lt)
    note f2 = pass_frame [where f = styleNodeOf, OF styleNodeOf_parent
        p2 [unfolded ensureRequireStyles_pass mockStyleNode_newNode]]
    have na: "nextArray s1 = Suc (nextArray s)" by (simp add: f1(2) c1)
    have a2: "arrays s' a = arrays s a"
      using a by (simp add: f2(1) c2 a1 na)
    have n2: "nextNode s' = n + length L + length L'" using f2(3) by (simp add: c2 a1 Lt)
    have lt: "lt = [n + length L ..< n + length L + length L']" using f2(4) by (simp add: c2 a1 Lt)
    have "\<exists>par'. \<forall>i. strip (nodes s' i)
            = (if n + length L \<le> i \<and> i < n + length L + length L'
               then styleNodeOf (L' ! (i - (n + length L))) par'
               else strip (nodes s1 i))"
      using f2(5) by (simp add: c2 a1 Lt strip_styleNodeOf cong: if_cong)
    then obtain par' where
      st2: "\<forall>i. strip (nodes s' i)
            = (if n + length L \<le> i \<and> i < n + length L + length L'
               then styleNodeOf (L' ! (i - (n + length L))) par'
               else strip (nodes s1 i))"
      by blast
    have "\<forall>i. strip (nodes s' i)
           = (if n \<le> i \<and> i < n + length L then scriptNodeOf (L ! (i - n)) par
              else if n + length L \<le> i \<and> i < n + length L + length L'
                   then styleNodeOf (L' ! (i - (n + length L))) par'
                   else strip (nodes s i))"
      using st1 st2 by auto
    then have ex: "\<exists>par par'. \<forall>i. strip (nodes s' i)
           = (if n \<le> i \<and> i < n + length L then scriptNodeOf (L ! (i - n)) par
              else if n + length L \<le> i \<and> i < n + length L + length L'
                   then styleNodeOf (L' ! (i - (n + length L))) par'
                   else strip (nodes s i))"
      by blast
    have "nextArray s' = Suc (Suc (nextArray s))" by (simp add: f2(2) c2_def newArray_fields na)
    with ex n2 a2 d' ls lt show ?thesis
      by simp
  qed
  from all show "nextNode s' = n + length L + length L'"
    and "\<exists>par par'. \<forall>i. strip (nodes s' i)
           = (if n \<le> i \<and> i < n + length L then scriptNodeOf (L ! (i - n)) par
              else if n + length L \<le> i \<and> i < n + length L + length L'
                   then styleNodeOf (L' ! (i - (n + length L))) par'
                   else strip (nodes s i))"
    and "d' = findScriptStyleTagComment s'
                ([n ..< n + length L] @ [n + length L ..< n + length L + length L']) d"
    and "arrays s' a = arrays s a"
    and "nextArray s < nextArray s'"
    by blast+
qed

subsection \<open>Scanning the injected nodes\<close>

lemma Resource_new_script:
  "strip (nodes s i) = scriptNodeOf x par \<Longrightarrow>
     Resource_new s i path
       = \<lparr>res_node = i, res_type = Script, chunkName = Some (removeExt x), res_data = [],
          htmlFilePath = path\<rparr>"
proof -
  assume e: "strip (nodes s i) = scriptNodeOf x par"
  have "nodeName (nodes s i) = nodeName (strip (nodes s i))"
    and "attrs (nodes s i) = attrs (strip (nodes s i))"
    by (simp_all add: strip_fields)
  then have "nodeName (nodes s i) = ''script''" "attrs (nodes s i) = [(''src'', x)]"
    by (simp_all add: e scriptNodeOf_def)
  then show ?thesis by (simp add: Resource_new_def)
qed

lemma Resource_new_style:
  "strip (nodes s i) = styleNodeOf x par \<Longrightarrow>
     Resource_new s i path
       = \<lparr>res_node = i, res_type = Style, chunkName = Some (removeExt x), res_data = [],
          htmlFilePath = path\<rparr>"
proof -
  assume e: "strip (nodes s i) = styleNodeOf x par"
  have "nodeName (nodes s i) = nodeName (strip (nodes s i))"
    and "attrs (nodes s i) = attrs (strip (nodes s i))"
    by (simp_all add: strip_fields)
  then have "nodeName (nodes s i) = ''link''"
    "attrs (nodes s i) = [(''rel'', ''stylesheet''), (''href'', x)]"
    by (simp_all add: e styleNodeOf_def)
  then show ?thesis by (simp add: Resource_new_def)
qed

lemma scan_scripts:
  "\<forall>i\<in>set ls. res_type (Resource_new s i (htmlTemplateFilePath d)) = Script \<Longrightarrow>
     findScriptStyleTagComment s ls d
       = d\<lparr>scriptResources := scriptResources d
                                 @ map (\<lambda>i. Resource_new s i (htmlTemplateFilePath d)) ls\<rparr>"
  unfolding findScriptStyleTagComment_def
proof (induction ls arbitrary: d)
  case Nil
  show ?case by simp
next
  case (Cons i ls)
  define d1 where "d1 = d\<lparr>scriptResources := scriptResources d @ [Resource_new s i (htmlTemplateFilePath d)]\<rparr>"
  have step: "scanChild s d i = d1"
    using Cons.prems by (simp add: scanChild_def Let_def d1_def)
  have p: "htmlTemplateFilePath d1 = htmlTemplateFilePath d" by (simp add: d1_def)
  have "foldl (scanChild s) d1 ls
          = d1\<lparr>scriptResources := scriptResources d1
                                     @ map (\<lambda>i. Resource_new s i (htmlTemplateFilePath d1)) ls\<rparr>"
    using Cons.prems by (intro Cons.IH) (simp add: p)
  then show ?case
    by (simp add: step p) (simp add: d1_def)
qed

lemma scan_styles:
  "\<forall>i\<in>set ls. res_type (Resource_new s i (htmlTemplateFilePath d)) = Style \<Longrightarrow>
     findScriptStyleTagComment s ls d
       = d\<lparr>stylesResources := stylesResources d
                                 @ map (\<lambda>i. Resource_new s i (htmlTemplateFilePath d)) ls\<rparr>"
  unfolding findScriptStyleTagComment_def
proof (induction ls arbitrary: d)
  case Nil
  show ?case by simp
next
  case (Cons i ls)
  define d1 where "d1 = d\<lparr>stylesResources := stylesResources d @ [Resource_new s i (htmlTemplateFilePath d)]\<rparr>"
  have step: "scanChild s d i = d1"
    using Cons.prems by (simp add: scanChild_def Let_def d1_def)
  have p: "htmlTemplateFilePath d1 = htmlTemplateFilePath d" by (simp add: d1_def)
  have "foldl (scanChild s) d1 ls
          = d1\<lparr>stylesResources := stylesResources d1
                                     @ map (\<lambda>i. Resource_new s i (htmlTemplateFilePath d1)) ls\<rparr>"
    using Cons.prems by (intro Cons.IH) (simp add: p)
  then show ?case
    by (simp add: step p) (simp add: d1_def)
qed

lemma scan_append:
  "findScriptStyleTagComment s (ls @ lt) d
     = findScriptStyleTagComment s lt (findScriptStyleTagComment s ls d)"
  by (simp add: findScriptStyleTagComment_def)

text \<open>
  The document after a returning call: the resources scanned before, then one script
  resource per left-over script name and one style resource per left-over style name,
  each with the name's extension removed as its chunk name.
\<close>

lemma ensureRequires_document:
  assumes a: "a < nextArray s"
    and res: "ensureRequires flag a (d, s) = Inr (d', s')"
    and L: "L = leftNames (scriptResources d) (arrays s a)"
    and L': "L' = (if flag then leftNames (stylesResources d) (arrays s a) else [])"
  shows "\<exists>newS newT.
           d' = d\<lparr>scriptResources := scriptResources d @ newS,
                   stylesResources := stylesResources d @ newT\<rparr>
           \<and> map chunkName newS = map (\<lambda>x. Some (removeExt x)) L
           \<and> map chunkName newT = map (\<lambda>x. Some (removeExt x)) L'"
proof -
  define n where "n = nextNode s"
  define path where "path = htmlTemplateFilePath d"
  note r = ensureRequires_result [OF a res L L' n_def]
  from r(2) obtain par par' where
    st: "\<forall>i. strip (nodes s' i)
           = (if n \<le> i \<and> i < n + length L then scriptNodeOf (L ! (i - n)) par
              else if n + length L \<le> i \<and> i < n + length L + length L'
                   then styleNodeOf (L' ! (i - (n + length L))) par'
                   else strip (nodes s i))"
    by blast
  have sc: "\<forall>k < length L. Resource_new s' (n + k) path
              = \<lparr>res_node = n + k, res_type = Script, chunkName = Some (removeExt (L ! k)),
                 res_data = [], htmlFilePath = path\<rparr>"
    using st by (simp add: Resource_new_script [where par = par])
  have sy: "\<forall>k < length L'. Resource_new s' (n + length L + k) path
              = \<lparr>res_node = n + length L + k, res_type = Style,
                 chunkName = Some (removeExt (L' ! k)), res_data = [], htmlFilePath = path\<rparr>"
    using st by (simp add: Resource_new_style [where par = par'])
  define newS where "newS = map (\<lambda>i. Resource_new s' i path) [n ..< n + length L]"
  define newT where "newT = map (\<lambda>i. Resource_new s' i path)
                               [n + length L ..< n + length L + length L']"
  have tS: "\<forall>i\<in>set [n ..< n + length L]. res_type (Resource_new s' i path) = Script"
  proof
    fix i assume "i \<in> set [n ..< n + length L]"
    then have "i - n < length L" "i = n + (i - n)" by auto
    with sc show "res_type (Resource_new s' i path) = Script"
      by (metis Resource.select_convs(2))
  qed
  have tT: "\<forall>i\<in>set [n + length L ..< n + length L + length L'].
              res_type (Resource_new s' i path) = Style"
  proof
    fix i assume "i \<in> set [n + length L ..< n + length L + length L']"
    then have "i - (n + length L) < length L'" "i = n + length L + (i - (n + length L))" by auto
    with sy show "res_type (Resource_new s' i path) = Style"
      by (metis Resource.select_convs(2))
  qed
  define d1 where "d1 = d\<lparr>scriptResources := scriptResources d @ newS\<rparr>"
  have p1: "htmlTemplateFilePath d1 = path" by (simp add: d1_def path_def)
  have "findScriptStyleTagComment s' [n ..< n + length L] d = d1"
    unfolding d1_def newS_def path_def
    by (rule scan_scripts) (use tS in \<open>simp add: path_def\<close>)
  moreover have "findScriptStyleTagComment s' [n + length L ..< n + length L + length L'] d1
          = d1\<lparr>stylesResources := stylesResources d1 @ newT\<rparr>"
    unfolding newT_def p1 [symmetric]
    by (rule scan_styles) (use tT in \<open>simp add: p1\<close>)
  ultimately have d': "d' = d1\<lparr>stylesResources := stylesResources d1 @ newT\<rparr>"
    using r(3) by (simp add: scan_append)
  have cS: "map chunkName newS = map (\<lambda>x. Some (removeExt x)) L"
    by (rule nth_equalityI) (simp_all add: newS_def sc)
  have cT: "map chunkName newT = map (\<lambda>x. Some (removeExt x)) L'"
    by (rule nth_equalityI) (simp_all add: newT_def sy)
  have "d' = d\<lparr>scriptResources := scriptResources d @ newS,
                stylesResources := stylesResources d @ newT\<rparr>"
    by (simp add: d' d1_def)
  with cS cT show ?thesis by blast
qed

subsection \<open>Completeness\<close>




subsection \<open>Idempotence\<close>

lemma pass_empty:
  "leftNames rs (arrays s a) = [] \<Longrightarrow>
     pass mk rs marker anchor a s = Inr ([], s\<lparr>arrays := (arrays s)(a := [])\<rparr>)"
  by (simp add: pass_def removeHasInject_fold Let_def)

lemma scan_nothing: "findScriptStyleTagComment s [] d = d"
  by (simp add: findScriptStyleTagComment_def)

lemma ensureRequires_noop:
  assumes a: "a < nextArray s"
    and Ls: "leftNames (scriptResources d) (arrays s a) = []"
    and Lt: "flag \<longrightarrow> leftNames (stylesResources d) (arrays s a) = []"
  shows "\<exists>s'. ensureRequires flag a (d, s) = Inr (d, s') \<and> nodes s' = nodes s
              \<and> nextNode s' = nextNode s"
proof -
  define c1 where "c1 = snd (newArray (arrays s a) s)"
  define s1 where "s1 = c1\<lparr>arrays := (arrays c1)(nextArray s := [])\<rparr>"
  have c1: "arrays c1 (nextArray s) = arrays s a" "nodes c1 = nodes s" "nextNode c1 = nextNode s"
    "nextArray c1 = Suc (nextArray s)" "arrays c1 a = arrays s a"
    using a by (simp_all add: c1_def newArray_fields)
  have p1: "ensureRequireScripts (nextArray s) d c1 = Inr ([], s1)"
    unfolding ensureRequireScripts_pass s1_def
    by (rule pass_empty) (simp add: c1 Ls)
  have s1: "nodes s1 = nodes s" "nextNode s1 = nextNode s" "arrays s1 a = arrays s a"
    "nextArray s1 = Suc (nextArray s)"
    using a by (simp_all add: s1_def c1)
  show ?thesis
  proof (cases flag)
    case False
    then have "ensureRequires flag a (d, s) = Inr (d, s1)"
      by (simp add: ensureRequires_def Let_def bindE_def newArray_fields c1_def [symmetric] p1
            scan_nothing)
    with s1 show ?thesis by simp
  next
    case True
    define c2 where "c2 = snd (newArray (arrays s1 a) s1)"
    define s2 where "s2 = c2\<lparr>arrays := (arrays c2)(nextArray s1 := [])\<rparr>"
    have c2: "arrays c2 (nextArray s1) = arrays s a" "nodes c2 = nodes s" "nextNode c2 = nextNode s"
      by (simp_all add: c2_def newArray_fields s1)
    have p2: "ensureRequireStyles (nextArray s1) d c2 = Inr ([], s2)"
      unfolding ensureRequireStyles_pass s2_def
      by (rule pass_empty) (use True Lt in \<open>simp add: c2\<close>)
    have "ensureRequires flag a (d, s) = Inr (d, s2)"
      using True
      by (simp add: ensureRequires_def Let_def bindE_def newArray_fields c1_def [symmetric] p1
            c2_def [symmetric] p2 scan_nothing)
    moreover have "nodes s2 = nodes s" "nextNode s2 = nextNode s"
      by (simp_all add: s2_def c2)
    ultimately show ?thesis by simp
  qed
qed

text \<open>
  C2, as amended: for a required list whose names carry no file extension, calling
  reconciliation twice in a row with the same list leaves the same document and the same
  nodes as calling it once (and throws when the first call throws): the second call finds
  every name present and injects nothing.
\<close>

theorem C2_reconcile_twice:
  assumes a: "a < nextArray s"
    and ext: "\<forall>x\<in>set (arrays s a). removeExt x = x"
  shows "map_sum id tree_view (bindE (ensureRequires flag a (d, s)) (ensureRequires flag a))
           = map_sum id tree_view (ensureRequires flag a (d, s))"
proof (cases "ensureRequires flag a (d, s)")
  case (Inl e)
  then show ?thesis by (simp add: bindE_def)
next
  case (Inr ds)
  obtain d1 s1 where ds: "ds = (d1, s1)" by (cases ds)
  with Inr have res: "ensureRequires flag a (d, s) = Inr (d1, s1)" by simp
  define L where "L = leftNames (scriptResources d) (arrays s a)"
  define L' where "L' = (if flag then leftNames (stylesResources d) (arrays s a) else [])"
  note r = ensureRequires_result [OF a res L_def L'_def refl]
  from ensureRequires_document [OF a res L_def L'_def] obtain newS newT where
    d1: "d1 = d\<lparr>scriptResources := scriptResources d @ newS,
                 stylesResources := stylesResources d @ newT\<rparr>"
    and cS: "map chunkName newS = map (\<lambda>x. Some (removeExt x)) L"
    and cT: "map chunkName newT = map (\<lambda>x. Some (removeExt x)) L'"
    by blast
  have "set L \<subseteq> set (arrays s a)"
    unfolding L_def by (rule leftNames_subset)
  then have "map (\<lambda>x. Some (removeExt x)) L = map Some L"
    using ext by auto
  with cS have kS: "map chunkName newS = map Some L" by simp
  have "set L' \<subseteq> set (arrays s a)"
    unfolding L'_def using leftNames_subset [of "stylesResources d" "arrays s a"] by auto
  then have "map (\<lambda>x. Some (removeExt x)) L' = map Some L'"
    using ext by auto
  with cT have kT: "map chunkName newT = map Some L'" by simp
  have a1: "a < nextArray s1" using a r(5) by simp
  have Ls: "leftNames (scriptResources d1) (arrays s1 a) = []"
    by (simp add: d1 r(4) leftNames_append L_def [symmetric] leftNames_self [OF kS])
  have Lt: "flag \<longrightarrow> leftNames (stylesResources d1) (arrays s1 a) = []"
  proof
    assume flag
    then have "leftNames (stylesResources d) (arrays s a) = L'" by (simp add: L'_def)
    then show "leftNames (stylesResources d1) (arrays s1 a) = []"
      by (simp add: d1 r(4) leftNames_append leftNames_self [OF kT])
  qed
  from ensureRequires_noop [OF a1 Ls Lt] obtain s2 where
    "ensureRequires flag a (d1, s1) = Inr (d1, s2)" "nodes s2 = nodes s1" "nextNode s2 = nextNode s1"
    by blast
  then show ?thesis
    by (simp add: res bindE_def tree_view_def)
qed

theorem C2_reconcile_twice_witness:
  "0 < nextArray (snd pageState)
   \<and> map removeExt (arrays (snd pageState) 0) = arrays (snd pageState) 0
   \<and> map_sum id tree_view
        (bindE (ensureRequires True 0 (fst pageState, snd pageState)) (ensureRequires True 0))
       = map_sum id tree_view (ensureRequires True 0 (fst pageState, snd pageState))
   \<and> thrown (ensureRequires True 0 (fst pageState, snd pageState)) = None"
proof -
  have a: "0 < nextArray (snd pageState)" by code_simp
  have e: "\<forall>x\<in>set (arrays (snd pageState) 0). removeExt x = x" by code_simp
  have t: "thrown (ensureRequires True 0 (fst pageState, snd pageState)) = None" by code_simp
  have m: "map removeExt (arrays (snd pageState) 0) = arrays (snd pageState) 0" by code_simp
  show ?thesis
    by (intro conjI) (rule a m t C2_reconcile_twice [OF a e])+
qed

text \<open>
  The claim as stated fails for a name with a file extension: with the required list
  \<open>[app.js]\<close> and an empty body, one call leaves one script node in the body and two
  calls leave two, because the injected node is scanned as the chunk \<open>app\<close>.
\<close>

theorem C2_counterexample:
  "map_sum id bodyNames (ensureRequires False 0 plainState) = Inr [''script'']
   \<and> map_sum id bodyNames (bindE (ensureRequires False 0 plainState) (ensureRequires False 0))
       = Inr [''script'', ''script'']"
  by code_simp

subsection \<open>The style pass\<close>

lemma ensureRequires_True_via_False:
  assumes scripts: "ensureRequires False a (d, s) = Inr (d1, s1)"
  shows "ensureRequires True a (d, s)
           = bindE (ensureRequireStyles (nextArray s1) d (snd (newArray (arrays s1 a) s1)))
               (\<lambda>r. Inr (findScriptStyleTagComment (snd r) ([nextNode s ..< nextNode s1] @ fst r) d,
                          snd r))"
proof -
  define c1 where "c1 = snd (newArray (arrays s a) s)"
  from scripts obtain ls where
    p1: "ensureRequireScripts (nextArray s) d c1 = Inr (ls, s1)"
    by (auto simp: ensureRequires_def Let_def bindE_def newArray_fields c1_def split: sum.splits)
  note p = p1 [unfolded ensureRequireScripts_pass mockScriptNode_newNode]
  have ls: "ls = [nextNode s ..< nextNode s1]"
    using pass_frame(3,4) [where f = scriptNodeOf, OF scriptNodeOf_parent p]
    by (simp add: c1_def newArray_fields)
  show ?thesis
    by (simp add: ensureRequires_def Let_def bindE_def newArray_fields c1_def [symmetric] p1 ls
          split: sum.splits)
qed

text \<open>
  The style pass runs if and only if the styles-extracted flag is set. Let the call with
  the flag unset return \<open>(d1, s1)\<close>. Then it has recorded no style resource and made
  no link node; the call with the flag set is the style pass run on \<open>s1\<close> with a fresh
  copy of the required list, followed by the scan of the new script and link nodes; and
  when the style pass has left-over names it puts one new link node per name, with
  \<open>rel=stylesheet\<close> and the name as \<open>href\<close>, at the end of the head's children when
  there is no style marker, and in the place of the style marker when that marker is a
  child of its parent.
\<close>

lemma style_pass_iff_flag:
  assumes a: "a < nextArray s"
    and scripts: "ensureRequires False a (d, s) = Inr (d1, s1)"
    and left: "L = leftNames (stylesResources d) (arrays s a)"
    and new: "new = [nextNode s1 ..< nextNode s1 + length L]"
  shows "stylesResources d1 = stylesResources d
         \<and> (\<forall>i. nodeName (nodes s1 i) = ''link'' \<longrightarrow> nodeName (nodes s i) = ''link'')
         \<and> ensureRequires True a (d, s)
             = bindE (ensureRequireStyles (nextArray s1) d (snd (newArray (arrays s1 a) s1)))
                 (\<lambda>r. Inr (findScriptStyleTagComment (snd r) ([nextNode s ..< nextNode s1] @ fst r) d,
                            snd r))
         \<and> (L \<noteq> [] \<longrightarrow> styleInjectCommentNode d = None \<longrightarrow> headNode d = Some h
               \<longrightarrow> h < nextNode s1 \<longrightarrow>
               (\<exists>d' s'. ensureRequires True a (d, s) = Inr (d', s')
                  \<and> childNodes (nodes s' h) = childNodes (nodes s1 h) @ new
                  \<and> (\<forall>k < length L. nodes s' (nextNode s1 + k) = styleNodeOf (L ! k) (Some h))))
         \<and> (L \<noteq> [] \<longrightarrow> styleInjectCommentNode d = Some m \<longrightarrow> parentNode (nodes s1 m) = Some p
               \<longrightarrow> childNodes (nodes s1 p) = pre @ m # post \<longrightarrow> m \<notin> set pre
               \<longrightarrow> p < nextNode s1 \<longrightarrow>
               (\<exists>d' s'. ensureRequires True a (d, s) = Inr (d', s')
                  \<and> childNodes (nodes s' p) = pre @ new @ post
                  \<and> (\<forall>k < length L. nodes s' (nextNode s1 + k) = styleNodeOf (L ! k) (Some p))))"
proof -
  define n where "n = nextNode s"
  define Ls where "Ls = leftNames (scriptResources d) (arrays s a)"
  define L0 where "L0 = (if False then leftNames (stylesResources d) (arrays s a) else [])"
  have L0: "L0 = []" by (simp add: L0_def)
  note r = ensureRequires_result [OF a scripts Ls_def L0_def n_def]
  \<comment> \<open>the flag unset\<close>
  from ensureRequires_document [OF a scripts Ls_def L0_def] obtain newS newT where
    d1: "d1 = d\<lparr>scriptResources := scriptResources d @ newS,
                 stylesResources := stylesResources d @ newT\<rparr>"
    and cT: "map chunkName newT = map (\<lambda>x. Some (removeExt x)) L0"
    by blast
  from cT have "newT = []" by (simp add: L0)
  then have c1: "stylesResources d1 = stylesResources d" by (simp add: d1)
  from r(2) obtain par par' where
    raw: "\<forall>i. strip (nodes s1 i)
           = (if n \<le> i \<and> i < n + length Ls then scriptNodeOf (Ls ! (i - n)) par
              else if n + length Ls \<le> i \<and> i < n + length Ls + length L0
                   then styleNodeOf (L0 ! (i - (n + length Ls))) par'
                   else strip (nodes s i))"
    by blast
  have st: "\<forall>i. strip (nodes s1 i)
           = (if n \<le> i \<and> i < n + length Ls then scriptNodeOf (Ls ! (i - n)) par
              else strip (nodes s i))"
  proof
    fix i
    have "\<not> (n + length Ls \<le> i \<and> i < n + length Ls + length L0)" by (simp add: L0)
    with raw [rule_format, of i]
    show "strip (nodes s1 i)
           = (if n \<le> i \<and> i < n + length Ls then scriptNodeOf (Ls ! (i - n)) par
              else strip (nodes s i))"
      by (simp only: if_False)
  qed
  have c2: "\<forall>i. nodeName (nodes s1 i) = ''link'' \<longrightarrow> nodeName (nodes s i) = ''link''"
  proof (intro allI impI)
    fix i assume l: "nodeName (nodes s1 i) = ''link''"
    have e: "nodeName (nodes s1 i) = nodeName (strip (nodes s1 i))" by (simp add: strip_fields)
    show "nodeName (nodes s i) = ''link''"
    proof (cases "n \<le> i \<and> i < n + length Ls")
      case True
      with st e have "nodeName (nodes s1 i) = ''script''" by (simp add: scriptNodeOf_def)
      with l show ?thesis by simp
    next
      case False
      with st e have "nodeName (nodes s1 i) = nodeName (strip (nodes s i))" by simp
      with l show ?thesis by (simp add: strip_fields)
    qed
  qed
  \<comment> \<open>the flag set\<close>
  note c3 = ensureRequires_True_via_False [OF scripts]
  define c2s where "c2s = snd (newArray (arrays s1 a) s1)"
  have c2s: "nodes c2s = nodes s1" "nextNode c2s = nextNode s1"
    "arrays c2s (nextArray s1) = arrays s a"
    by (simp_all add: c2s_def newArray_fields r(4))
  have Lc: "leftNames (stylesResources d) (arrays c2s (nextArray s1)) = L"
    by (simp add: c2s left)
  have c4: "L \<noteq> [] \<longrightarrow> styleInjectCommentNode d = None \<longrightarrow> headNode d = Some h
               \<longrightarrow> h < nextNode s1 \<longrightarrow>
               (\<exists>d' s'. ensureRequires True a (d, s) = Inr (d', s')
                  \<and> childNodes (nodes s' h) = childNodes (nodes s1 h) @ new
                  \<and> (\<forall>k < length L. nodes s' (nextNode s1 + k) = styleNodeOf (L ! k) (Some h)))"
  proof (intro impI)
    assume ne: "L \<noteq> []" and nm: "styleInjectCommentNode d = None"
      and hd: "headNode d = Some h" and h: "h < nextNode s1"
    define s' where "s' = setChildNodes h (childNodes (nodes c2s h) @ new)
        (allocated styleNodeOf (Some h) L (c2s\<lparr>arrays := (arrays c2s)(nextArray s1 := L)\<rparr>))"
    have h2: "h < nextNode c2s" using h by (simp add: c2s)
    have "ensureRequireStyles (nextArray s1) d c2s = Inr (new, s')"
      unfolding ensureRequireStyles_pass mockStyleNode_newNode nm hd s'_def new c2s(2) [symmetric]
      by (rule pass_append [OF styleNodeOf_parent h2 Lc ne])
    then have "ensureRequires True a (d, s)
                 = Inr (findScriptStyleTagComment s' ([nextNode s ..< nextNode s1] @ new) d, s')"
      by (simp add: c3 c2s_def [symmetric] bindE_def)
    moreover have "childNodes (nodes s' h) = childNodes (nodes s1 h) @ new"
      by (simp add: s'_def setChildNodes_fields c2s)
    moreover have "\<forall>k < length L. nodes s' (nextNode s1 + k) = styleNodeOf (L ! k) (Some h)"
      using h by (simp add: s'_def setChildNodes_def allocated_fields c2s)
    ultimately show "\<exists>d' s'. ensureRequires True a (d, s) = Inr (d', s')
                  \<and> childNodes (nodes s' h) = childNodes (nodes s1 h) @ new
                  \<and> (\<forall>k < length L. nodes s' (nextNode s1 + k) = styleNodeOf (L ! k) (Some h))"
      by blast
  qed
  have c5: "L \<noteq> [] \<longrightarrow> styleInjectCommentNode d = Some m \<longrightarrow> parentNode (nodes s1 m) = Some p
               \<longrightarrow> childNodes (nodes s1 p) = pre @ m # post \<longrightarrow> m \<notin> set pre
               \<longrightarrow> p < nextNode s1 \<longrightarrow>
               (\<exists>d' s'. ensureRequires True a (d, s) = Inr (d', s')
                  \<and> childNodes (nodes s' p) = pre @ new @ post
                  \<and> (\<forall>k < length L. nodes s' (nextNode s1 + k) = styleNodeOf (L ! k) (Some p)))"
  proof (intro impI)
    assume ne: "L \<noteq> []" and mk: "styleInjectCommentNode d = Some m"
      and pa: "parentNode (nodes s1 m) = Some p"
      and ch: "childNodes (nodes s1 p) = pre @ m # post" and once: "m \<notin> set pre"
      and p: "p < nextNode s1"
    define s' where "s' = setChildNodes p (pre @ new @ post)
        (allocated styleNodeOf (Some p) L (c2s\<lparr>arrays := (arrays c2s)(nextArray s1 := L)\<rparr>))"
    have p2: "p < nextNode c2s" using p by (simp add: c2s)
    have pa2: "parentNode (nodes c2s m) = Some p" using pa by (simp add: c2s)
    have ch2: "childNodes (nodes c2s p) = pre @ m # post" using ch by (simp add: c2s)
    have "ensureRequireStyles (nextArray s1) d c2s = Inr (new, s')"
      unfolding ensureRequireStyles_pass mockStyleNode_newNode mk s'_def new c2s(2) [symmetric]
      by (rule pass_marker [OF styleNodeOf_parent pa2 ch2 once p2 Lc ne])
    then have "ensureRequires True a (d, s)
                 = Inr (findScriptStyleTagComment s' ([nextNode s ..< nextNode s1] @ new) d, s')"
      by (simp add: c3 c2s_def [symmetric] bindE_def)
    moreover have "childNodes (nodes s' p) = pre @ new @ post"
      by (simp add: s'_def setChildNodes_fields)
    moreover have "\<forall>k < length L. nodes s' (nextNode s1 + k) = styleNodeOf (L ! k) (Some p)"
      using p by (simp add: s'_def setChildNodes_def allocated_fields c2s)
    ultimately show "\<exists>d' s'. ensureRequires True a (d, s) = Inr (d', s')
                  \<and> childNodes (nodes s' p) = pre @ new @ post
                  \<and> (\<forall>k < length L. nodes s' (nextNode s1 + k) = styleNodeOf (L ! k) (Some p))"
      by blast
  qed
  show ?thesis
    by (intro conjI) (rule c1 c2 c3 c4 c5)+
qed

text \<open>
  C7: the style pass should put its links at the style marker, or at the end of the head
  when there is no marker. For the third page of a template whose head is the \<open>STYLE\<close>
  marker (node 3), a \<open>meta\<close> and a \<open>title\<close>, the document still records node 3 as its
  style marker and node 2 as its head when its first reconciliation starts, but the head
  holds the link of the second page in the marker's place. The reconciliation with \<open>[c]\<close>
  then deletes the \<open>title\<close> and puts the link for \<open>c\<close> before the \<open>meta\<close>: neither
  at the marker's place nor at the end of the head.
\<close>

theorem C7_stale_marker_misplaces_link:
  "map_sum id
     (\<lambda>r. (styleInjectCommentNode (fst (fst r)), headNode (fst (fst r)),
            childView (snd (fst r)) 2, childView (snd (snd r)) 2))
     (threePages styledHeadEnv)
   = Inr (Some 3, Some 2,
          [(''link'', [(''rel'', ''stylesheet''), (''href'', ''b'')]),
           (''meta'', [(''charset'', ''UTF-8'')]),
           (''title'', [])],
          [(''link'', [(''rel'', ''stylesheet''), (''href'', ''b'')]),
           (''link'', [(''rel'', ''stylesheet''), (''href'', ''c'')]),
           (''meta'', [(''charset'', ''UTF-8'')])])"
  by code_simp

subsection \<open>What a pass does to a child list\<close>

lemma set_replaced_subset: "set (replaced c new cs) \<subseteq> set cs \<union> set new"
  by (auto simp: replaced_def splice_def Let_def dest: in_set_takeD in_set_dropD)


lemma pass_children:
  assumes par: "\<And>x p. parentNode (f x p) = p"
    and res: "pass (\<lambda>x p. newNode (f x p)) rs marker anchor a s = Inr (ls, s')"
    and q: "q < nextNode s"
  shows "childNodes (nodes s' q) =
     (if ls = [] then childNodes (nodes s q)
      else (case marker of
              Some c \<Rightarrow> if parentNode (nodes s c) = Some q
                        then replaced c ls (childNodes (nodes s q)) else childNodes (nodes s q)
            | None \<Rightarrow> if anchor = Some q then childNodes (nodes s q) @ ls
                      else childNodes (nodes s q)))"
proof -
  define L where "L = leftNames rs (arrays s a)"
  define s1 where "s1 = s\<lparr>arrays := (arrays s)(a := L)\<rparr>"
  define new where "new = [nextNode s ..< nextNode s + length L]"
  have s1: "nodes s1 = nodes s" "nextNode s1 = nextNode s" by (simp_all add: s1_def)
  have nn: "L \<noteq> [] \<Longrightarrow> new \<noteq> []" by (simp add: new_def)
  have al: "\<And>b. childNodes (nodes (allocated f b L s1) q) = childNodes (nodes s q)"
    using q by (simp add: allocated_fields s1)
  note pr = pass_result [of f L rs s a s1 new marker anchor, OF par L_def s1_def new_def]
  show ?thesis
  proof (cases "L = []")
    case True
    with res have "ls = []" "s' = s1" unfolding pr by simp_all
    then show ?thesis by (simp add: s1)
  next
    case False
    show ?thesis
    proof (cases marker)
      case None
      with res False obtain b where b: "anchor = Some b" "ls = new"
        "s' = setChildNodes b (childNodes (nodes (allocated f (Some b) L s1) b) @ new)
                (allocated f (Some b) L s1)"
        unfolding pr by (auto split: option.splits)
      show ?thesis
        using nn [OF False] by (simp add: b None setChildNodes_fields al)
    next
      case (Some c)
      with res False obtain p where p: "parentNode (nodes s c) = Some p" "ls = new"
        "s' = setChildNodes p (replaced c new (childNodes (nodes (allocated f (Some p) L s1) p)))
                (allocated f (Some p) L s1)"
        unfolding pr by (auto split: option.splits)
      show ?thesis
        using nn [OF False] by (simp add: p Some setChildNodes_fields al)
    qed
  qed
qed

lemma pass_children_subset:
  assumes par: "\<And>x p. parentNode (f x p) = p"
    and kids: "\<And>x p. childNodes (f x p) = []"
    and res: "pass (\<lambda>x p. newNode (f x p)) rs marker anchor a s = Inr (ls, s')"
    and q: "q < nextNode s'"
  shows "set (childNodes (nodes s' q))
           \<subseteq> (if q < nextNode s then set (childNodes (nodes s q)) else {}) \<union> set ls"
proof -
  define L where "L = leftNames rs (arrays s a)"
  define s1 where "s1 = s\<lparr>arrays := (arrays s)(a := L)\<rparr>"
  define new where "new = [nextNode s ..< nextNode s + length L]"
  have s1: "nodes s1 = nodes s" "nextNode s1 = nextNode s" by (simp_all add: s1_def)
  have n': "nextNode s' = nextNode s + length L"
    using pass_frame(3) [OF par res] by (simp add: L_def)
  have al: "\<And>b i. i < nextNode s' \<Longrightarrow> set (childNodes (nodes (allocated f b L s1) i))
               \<subseteq> (if i < nextNode s then set (childNodes (nodes s i)) else {})"
    by (simp add: allocated_fields s1 kids n')
  note pr = pass_result [of f L rs s a s1 new marker anchor, OF par L_def s1_def new_def]
  show ?thesis
  proof (cases "L = []")
    case True
    with res have "ls = []" "s' = s1" unfolding pr by simp_all
    then show ?thesis using q by (simp add: s1)
  next
    case False
    show ?thesis
    proof (cases marker)
      case None
      with res False obtain b where b: "anchor = Some b" "ls = new"
        "s' = setChildNodes b (childNodes (nodes (allocated f (Some b) L s1) b) @ new)
                (allocated f (Some b) L s1)"
        unfolding pr by (auto split: option.splits)
      show ?thesis
        using al [OF q, of "Some b"] by (auto simp: b setChildNodes_fields split: if_splits)
    next
      case (Some c)
      with res False obtain p where p: "parentNode (nodes s c) = Some p" "ls = new"
        "s' = setChildNodes p (replaced c new (childNodes (nodes (allocated f (Some p) L s1) p)))
                (allocated f (Some p) L s1)"
        unfolding pr by (auto split: option.splits)
      show ?thesis
        using al [OF q, of "Some p"]
          set_replaced_subset [of c new "childNodes (nodes (allocated f (Some p) L s1) p)"]
        by (auto simp: p setChildNodes_fields split: if_splits)
    qed
  qed
qed

lemma parentsOf_Nil:
  "parentsOf s m = [] \<longleftrightarrow> (\<forall>q < nextNode s. m \<notin> set (childNodes (nodes s q)))"
  by (auto simp: parentsOf_def filter_empty_conv)

lemma parentsOf_single:
  assumes "parentsOf s m = [p]"
  shows "p < nextNode s" and "\<And>q. q < nextNode s \<Longrightarrow> q \<noteq> p \<Longrightarrow> m \<notin> set (childNodes (nodes s q))"
proof -
  have mem: "\<And>q. q \<in> set (parentsOf s m) \<longleftrightarrow> q < nextNode s \<and> m \<in> set (childNodes (nodes s q))"
    by (auto simp: parentsOf_def)
  have "p \<in> set (parentsOf s m)" by (simp add: assms)
  then show "p < nextNode s" by (simp add: mem)
  fix q assume "q < nextNode s" "q \<noteq> p"
  then show "m \<notin> set (childNodes (nodes s q))"
    using mem [of q] by (simp add: assms)
qed

lemma pass_returns:
  assumes par: "\<And>x p. parentNode (f x p) = p"
    and ok: "leftNames rs (arrays s a) = []
             \<or> (case marker of Some c \<Rightarrow> parentNode (nodes s c) \<noteq> None | None \<Rightarrow> anchor \<noteq> None)"
  shows "\<exists>ls s'. pass (\<lambda>x p. newNode (f x p)) rs marker anchor a s = Inr (ls, s')"
  unfolding pass_result [of f "leftNames rs (arrays s a)" rs s a
      "s\<lparr>arrays := (arrays s)(a := leftNames rs (arrays s a))\<rparr>"
      "[nextNode s ..< nextNode s + length (leftNames rs (arrays s a))]" marker anchor,
      OF par refl refl refl]
  using ok by (auto split: option.splits)



subsection \<open>The script marker\<close>

lemma scriptNodeOf_kids: "childNodes (scriptNodeOf x p) = []"
  by (simp add: scriptNodeOf_def)

lemma styleNodeOf_kids: "childNodes (styleNodeOf x p) = []"
  by (simp add: styleNodeOf_def)

text \<open>
  C4, as amended: let the script marker \<open>m\<close> be a child of its parent \<open>p\<close>, between
  the children \<open>pre\<close> and \<open>post\<close>, and of no other node, and let reconciliation leave
  the non-empty list \<open>L\<close> of script names. When styles are extracted, let the style
  pass insert nothing before the marker's place in \<open>p\<close>. Then reconciliation returns;
  afterwards the marker is a child of no allocated node, and the children of \<open>p\<close> are \<open>pre\<close>,
  then exactly \<open>length L\<close> new script nodes, the \<open>k\<close>-th with \<open>src\<close> the \<open>k\<close>-th
  left-over name, then the nodes that were in \<open>post\<close> and link nodes the style pass
  made (\<open>post\<close> itself when styles are not extracted, or no style name is left over, or
  the style pass inserts into another node); the left-over names stand in the order of the
  required list.
\<close>

theorem C4_marker_replaced:
  assumes a: "a < nextArray s"
    and marker: "scriptInjectCommentNode d = Some m"
    and parent: "parentNode (nodes s m) = Some p"
    and children: "childNodes (nodes s p) = pre @ m # post"
    and once: "m \<notin> set pre" "m \<notin> set post"
    and only: "parentsOf s m = [p]"
    and alloc: "m < nextNode s"
    and left: "leftNames (scriptResources d) (arrays s a) = L" "L \<noteq> []"
    and styles: "flag \<longrightarrow> stylesNotBefore d s a p pre post"
  shows "\<exists>d' s' rest.
           ensureRequires flag a (d, s) = Inr (d', s')
           \<and> childNodes (nodes s' p) = pre @ [nextNode s ..< nextNode s + length L] @ rest
           \<and> (\<forall>x\<in>set rest. x \<in> set post
                   \<or> (nextNode s + length L \<le> x \<and> nodeName (nodes s' x) = ''link''))
           \<and> (\<not> flag \<or> leftNames (stylesResources d) (arrays s a) = [] \<or> styleTarget d s \<noteq> Some p
                 \<longrightarrow> rest = post)
           \<and> parentsOf s' m = []
           \<and> (\<forall>k < length L. strip (nodes s' (nextNode s + k)) = scriptNodeOf (L ! k) (Some p))
           \<and> subseq L (arrays s a)"
proof -
  define n where "n = nextNode s"
  define new where "new = [n ..< n + length L]"
  define c1 where "c1 = snd (newArray (arrays s a) s)"
  have c1: "nodes c1 = nodes s" "nextNode c1 = n" "arrays c1 (nextArray s) = arrays s a"
    "nextArray c1 = Suc (nextArray s)" "arrays c1 a = arrays s a"
    using a by (simp_all add: c1_def newArray_fields n_def)
  define s1 where "s1 = setChildNodes p (pre @ new @ post)
      (allocated scriptNodeOf (Some p) L (c1\<lparr>arrays := (arrays c1)(nextArray s := L)\<rparr>))"
  have mn: "m < n" and pn: "p < n"
    using alloc parentsOf_single(1) [OF only] by (simp_all add: n_def)
  have p1: "ensureRequireScripts (nextArray s) d c1 = Inr (new, s1)"
  proof -
    have parent1: "parentNode (nodes c1 m) = Some p" by (simp add: c1 parent)
    have children1: "childNodes (nodes c1 p) = pre @ m # post" by (simp add: c1 children)
    have alloc1: "p < nextNode c1" by (simp add: c1 pn)
    have left1: "leftNames (scriptResources d) (arrays c1 (nextArray s)) = L"
      by (simp add: c1 left)
    show ?thesis
      unfolding ensureRequireScripts_pass mockScriptNode_newNode marker new_def s1_def
        c1(2) [symmetric]
      by (rule pass_marker [OF scriptNodeOf_parent parent1 children1 once(1) alloc1 left1 left(2)])
  qed
  have k1: "childNodes (nodes s1 p) = pre @ new @ post"
    by (simp add: s1_def setChildNodes_fields)
  have k2: "\<And>q. q \<noteq> p \<Longrightarrow> q < n + length L \<Longrightarrow> set (childNodes (nodes s1 q))
               \<subseteq> (if q < n then set (childNodes (nodes s q)) else {})"
    by (simp add: s1_def setChildNodes_fields allocated_fields c1 scriptNodeOf_kids)
  have k3: "\<forall>k < length L. nodes s1 (n + k) = scriptNodeOf (L ! k) (Some p)"
    using pn by (simp add: s1_def setChildNodes_def allocated_fields c1)
  have k4: "nextNode s1 = n + length L"
    by (simp add: s1_def setChildNodes_fields allocated_fields c1)
  have k5: "\<And>i. i < n \<Longrightarrow> parentNode (nodes s1 i) = parentNode (nodes s i)"
    by (simp add: s1_def setChildNodes_def allocated_fields c1)
  have k6: "arrays s1 a = arrays s a"
    using a by (simp add: s1_def setChildNodes_fields allocated_fields c1)
  have k7: "m \<notin> set new" using mn by (simp add: new_def)
  have gone1: "\<And>q. q < n + length L \<Longrightarrow> m \<notin> set (childNodes (nodes s1 q))"
  proof -
    fix q assume q: "q < n + length L"
    show "m \<notin> set (childNodes (nodes s1 q))"
    proof (cases "q = p")
      case True
      then show ?thesis using once k7 by (simp add: k1)
    next
      case False
      show ?thesis
      proof (cases "q < n")
        case True
        with parentsOf_single(2) [OF only, of q] False k2 [OF False q] show ?thesis
          by (auto simp: n_def)
      next
        case False
        with k2 [OF \<open>q \<noteq> p\<close> q] show ?thesis by simp
      qed
    qed
  qed
  have sub: "subseq L (arrays s a)"
    using leftNames_subseq [of "scriptResources d" "arrays s a"] left by simp
  have sc1: "\<forall>k < length L. strip (nodes s1 (n + k)) = scriptNodeOf (L ! k) (Some p)"
    using k3 by (simp add: strip_scriptNodeOf)
  show ?thesis
  proof (cases flag)
    case False
    have run: "ensureRequires flag a (d, s) = Inr (findScriptStyleTagComment s1 (new @ []) d, s1)"
      using False
      by (simp add: ensureRequires_def Let_def bindE_def newArray_fields c1_def [symmetric] p1)
    show ?thesis
    proof (intro exI [of _ "findScriptStyleTagComment s1 (new @ []) d"] exI [of _ s1]
        exI [of _ post] conjI)
      show "ensureRequires flag a (d, s) = Inr (findScriptStyleTagComment s1 (new @ []) d, s1)"
        by (rule run)
      show "childNodes (nodes s1 p) = pre @ [nextNode s ..< nextNode s + length L] @ post"
        using k1 by (simp only: new_def n_def)
      show "\<forall>x\<in>set post. x \<in> set post
              \<or> (nextNode s + length L \<le> x \<and> nodeName (nodes s1 x) = ''link'')"
        by simp
      show "\<not> flag \<or> leftNames (stylesResources d) (arrays s a) = [] \<or> styleTarget d s \<noteq> Some p
              \<longrightarrow> post = post" by simp
      show "parentsOf s1 m = []" using gone1 by (simp add: parentsOf_Nil k4)
      show "\<forall>k < length L. strip (nodes s1 (nextNode s + k)) = scriptNodeOf (L ! k) (Some p)"
        using sc1 by (simp only: n_def)
      show "subseq L (arrays s a)" by (rule sub)
    qed
  next
    case True
    define c2 where "c2 = snd (newArray (arrays s1 a) s1)"
    define L' where "L' = leftNames (stylesResources d) (arrays s a)"
    have c2: "nodes c2 = nodes s1" "nextNode c2 = n + length L"
      "arrays c2 (nextArray s1) = arrays s a"
      by (simp_all add: c2_def newArray_fields k4 k6)
    have L2: "leftNames (stylesResources d) (arrays c2 (nextArray s1)) = L'"
      by (simp add: c2 L'_def)
    from styles True have snb: "stylesNotBefore d s a p pre post" by simp
    have par2: "\<And>c. c < n \<Longrightarrow> parentNode (nodes c2 c) = parentNode (nodes s c)"
      by (simp add: c2 k5)
    have ok: "leftNames (stylesResources d) (arrays c2 (nextArray s1)) = []
              \<or> (case styleInjectCommentNode d of
                    Some c \<Rightarrow> parentNode (nodes c2 c) \<noteq> None
                  | None \<Rightarrow> headNode d \<noteq> None)"
      using snb unfolding stylesNotBefore_def L2 L'_def [symmetric]
      by (auto split: option.splits simp: par2 n_def [symmetric])
    from pass_returns [where f = styleNodeOf, OF styleNodeOf_parent ok]
    obtain lnk s' where
      p2: "pass (\<lambda>x p. newNode (styleNodeOf x p)) (stylesResources d) (styleInjectCommentNode d)
             (headNode d) (nextArray s1) c2 = Inr (lnk, s')"
      by blast
    then have p2': "ensureRequireStyles (nextArray s1) d c2 = Inr (lnk, s')"
      by (simp add: ensureRequireStyles_pass mockStyleNode_newNode)
    have run: "ensureRequires flag a (d, s) = Inr (findScriptStyleTagComment s' (new @ lnk) d, s')"
      using True
      by (simp add: ensureRequires_def Let_def bindE_def newArray_fields c1_def [symmetric] p1
            c2_def [symmetric] p2')
    note f2 = pass_frame [where f = styleNodeOf, OF styleNodeOf_parent p2]
    have lnk: "lnk = [n + length L ..< n + length L + length L']"
      using f2(4) [unfolded L2] by (simp add: c2)
    have "\<exists>par. \<forall>i. strip (nodes s' i)
              = (if n + length L \<le> i \<and> i < n + length L + length L'
                 then strip (styleNodeOf (L' ! (i - (n + length L))) par)
                 else strip (nodes s1 i))"
      using f2(5) [unfolded L2] by (simp add: c2 cong: if_cong)
    then obtain par where
      st2: "\<forall>i. strip (nodes s' i)
              = (if n + length L \<le> i \<and> i < n + length L + length L'
                 then strip (styleNodeOf (L' ! (i - (n + length L))) par)
                 else strip (nodes s1 i))"
      by blast
    have links: "\<forall>x\<in>set lnk. n + length L \<le> x \<and> nodeName (nodes s' x) = ''link''"
    proof
      fix x assume "x \<in> set lnk"
      then have r: "n + length L \<le> x \<and> x < n + length L + length L'" by (simp add: lnk)
      with st2 have "strip (nodes s' x) = strip (styleNodeOf (L' ! (x - (n + length L))) par)"
        by simp
      then have "nodeName (strip (nodes s' x)) = ''link''"
        by (simp add: strip_def styleNodeOf_def)
      with r show "n + length L \<le> x \<and> nodeName (nodes s' x) = ''link''"
        by (simp add: strip_fields)
    qed
    have sc2: "\<forall>k < length L. strip (nodes s' (n + k)) = scriptNodeOf (L ! k) (Some p)"
      using st2 sc1 by simp
    have gone2: "parentsOf s' m = []"
      unfolding parentsOf_Nil
    proof (intro allI impI)
      fix q assume q: "q < nextNode s'"
      have "m \<notin> set lnk" using mn by (simp add: lnk)
      moreover have "q < nextNode c2 \<Longrightarrow> m \<notin> set (childNodes (nodes c2 q))"
        using gone1 [of q] by (simp add: c2)
      ultimately show "m \<notin> set (childNodes (nodes s' q))"
        using pass_children_subset [where f = styleNodeOf, OF styleNodeOf_parent styleNodeOf_kids
            p2 q]
        by (auto split: if_splits)
    qed
    have pc2: "p < nextNode c2" using pn by (simp add: c2)
    note pc = pass_children [where f = styleNodeOf, OF styleNodeOf_parent p2 pc2]
    have cs1: "childNodes (nodes c2 p) = pre @ new @ post" by (simp add: c2 k1)
    have shape: "\<exists>rest. childNodes (nodes s' p) = pre @ new @ rest
                   \<and> set rest \<subseteq> set post \<union> set lnk
                   \<and> (L' = [] \<or> styleTarget d s \<noteq> Some p \<longrightarrow> rest = post)"
    proof (cases "lnk = []")
      case True
      then have "childNodes (nodes s' p) = pre @ new @ post" by (simp add: pc cs1)
      then show ?thesis by auto
    next
      case False
      then have ne: "L' \<noteq> []" by (auto simp: lnk)
      show ?thesis
      proof (cases "styleInjectCommentNode d")
        case None
        then have "childNodes (nodes s' p)
                     = (if headNode d = Some p then pre @ new @ post @ lnk else pre @ new @ post)"
          using False by (simp add: pc cs1)
        moreover have "styleTarget d s = headNode d" by (simp add: styleTarget_def None)
        ultimately show ?thesis
          using ne by (cases "headNode d = Some p") auto
      next
        case (Some c)
        from snb ne Some obtain q where
          c: "c < n" and q: "parentNode (nodes s c) = Some q"
          and where_c: "q \<noteq> p \<or> (c \<in> set post \<and> c \<notin> set pre)"
          unfolding stylesNotBefore_def L'_def [symmetric]
          by (auto split: option.splits simp: n_def)
        have q2: "parentNode (nodes c2 c) = Some q" using c q by (simp add: par2)
        have tg: "styleTarget d s = Some q" by (simp add: styleTarget_def Some q)
        show ?thesis
        proof (cases "q = p")
          case False
          then have "childNodes (nodes s' p) = pre @ new @ post"
            using \<open>lnk \<noteq> []\<close> by (simp add: pc cs1 Some q2)
          then show ?thesis by auto
        next
          case True
          with where_c have cp: "c \<in> set post" and cn: "c \<notin> set pre" by auto
          from split_list_first [OF cp] obtain q1 q2 where
            post: "post = q1 @ c # q2" and q1: "c \<notin> set q1"
            by blast
          have "c \<notin> set new" using c by (simp add: new_def)
          with cn q1 have fresh: "c \<notin> set (pre @ new @ q1)" by simp
          have "replaced c lnk ((pre @ new @ q1) @ c # q2) = (pre @ new @ q1) @ lnk @ q2"
            by (rule replaced_found [OF fresh])
          then have "childNodes (nodes s' p) = pre @ new @ (q1 @ lnk @ q2)"
            using \<open>lnk \<noteq> []\<close> True by (simp add: pc cs1 Some q2 post)
          moreover have "set (q1 @ lnk @ q2) \<subseteq> set post \<union> set lnk"
            by (auto simp: post)
          ultimately show ?thesis using ne tg True by blast
        qed
      qed
    qed
    then obtain rest where
      r1: "childNodes (nodes s' p) = pre @ new @ rest"
      and r2: "set rest \<subseteq> set post \<union> set lnk"
      and r3: "L' = [] \<or> styleTarget d s \<noteq> Some p \<longrightarrow> rest = post"
      by blast
    show ?thesis
    proof (intro exI [of _ "findScriptStyleTagComment s' (new @ lnk) d"] exI [of _ s']
        exI [of _ rest] conjI)
      show "ensureRequires flag a (d, s) = Inr (findScriptStyleTagComment s' (new @ lnk) d, s')"
        by (rule run)
      show "childNodes (nodes s' p) = pre @ [nextNode s ..< nextNode s + length L] @ rest"
        using r1 by (simp only: new_def n_def)
      show "\<forall>x\<in>set rest. x \<in> set post
              \<or> (nextNode s + length L \<le> x \<and> nodeName (nodes s' x) = ''link'')"
        using r2 links unfolding n_def by blast
      show "\<not> flag \<or> leftNames (stylesResources d) (arrays s a) = [] \<or> styleTarget d s \<noteq> Some p
              \<longrightarrow> rest = post"
        using True r3 by (simp add: L'_def)
      show "parentsOf s' m = []" by (rule gone2)
      show "\<forall>k < length L. strip (nodes s' (nextNode s + k)) = scriptNodeOf (L ! k) (Some p)"
        using sc2 by (simp only: n_def)
      show "subseq L (arrays s a)" by (rule sub)
    qed
  qed
qed

theorem C4_marker_replaced_witness:
  "0 < nextArray (snd pageState)
   \<and> scriptInjectCommentNode (fst pageState) = Some 6
   \<and> parentNode (nodes (snd pageState) 6) = Some 4
   \<and> childNodes (nodes (snd pageState) 4) = [5] @ 6 # []
   \<and> (6::nat) \<notin> set [5] \<and> (6::nat) \<notin> set []
   \<and> parentsOf (snd pageState) 6 = [4]
   \<and> 6 < nextNode (snd pageState)
   \<and> leftNames (scriptResources (fst pageState)) (arrays (snd pageState) 0) = [''app'']
   \<and> [''app''] \<noteq> []
   \<and> stylesNotBefore (fst pageState) (snd pageState) 0 4 [5] []
   \<and> styleTarget (fst pageState) (snd pageState) = Some 2
   \<and> (\<exists>d' s'. ensureRequires True 0 (fst pageState, snd pageState) = Inr (d', s')
         \<and> childNodes (nodes s' 4) = [5, 7]
         \<and> parentsOf s' 6 = []
         \<and> strip (nodes s' 7) = scriptNodeOf ''app'' (Some 4))"
proof -
  have h0: "0 < nextArray (snd pageState)" by code_simp
  have h1: "scriptInjectCommentNode (fst pageState) = Some 6" by code_simp
  have h2: "parentNode (nodes (snd pageState) 6) = Some 4" by code_simp
  have h3: "childNodes (nodes (snd pageState) 4) = [5] @ 6 # []" by code_simp
  have h4: "(6::nat) \<notin> set [5]" by simp
  have h5: "(6::nat) \<notin> set []" by simp
  have h6: "parentsOf (snd pageState) 6 = [4]" by code_simp
  have n: "nextNode (snd pageState) = 7" by code_simp
  have h7: "6 < nextNode (snd pageState)" by (simp add: n)
  have h8: "leftNames (scriptResources (fst pageState)) (arrays (snd pageState) 0) = [''app'']"
    by code_simp
  have h9: "[''app''] \<noteq> []" by simp
  have snb: "stylesNotBefore (fst pageState) (snd pageState) 0 4 [5] []" by code_simp
  then have h10: "True \<longrightarrow> stylesNotBefore (fst pageState) (snd pageState) 0 4 [5] []" by simp
  have tg: "styleTarget (fst pageState) (snd pageState) = Some 2" by code_simp
  from C4_marker_replaced [OF h0 h1 h2 h3 h4 h5 h6 h7 h8 h9 h10]
  obtain d' s' rest where
    r: "ensureRequires True 0 (fst pageState, snd pageState) = Inr (d', s')"
    and c: "childNodes (nodes s' 4)
              = [5] @ [nextNode (snd pageState) ..< nextNode (snd pageState) + length [''app'']] @ rest"
    and p: "\<not> True \<or> leftNames (stylesResources (fst pageState)) (arrays (snd pageState) 0) = []
              \<or> styleTarget (fst pageState) (snd pageState) \<noteq> Some 4 \<longrightarrow> rest = []"
    and g: "parentsOf s' 6 = []"
    and k: "\<forall>k < length [''app''].
              strip (nodes s' (nextNode (snd pageState) + k)) = scriptNodeOf ([''app''] ! k) (Some 4)"
    by blast
  have rest: "rest = []" using p by (simp add: tg)
  have c': "childNodes (nodes s' 4) = [5, 7]"
    using c by (simp add: n rest)
  have k7: "strip (nodes s' 7) = scriptNodeOf ''app'' (Some 4)"
    using k [rule_format, of 0] by (simp add: n)
  have e: "\<exists>d' s'. ensureRequires True 0 (fst pageState, snd pageState) = Inr (d', s')
         \<and> childNodes (nodes s' 4) = [5, 7]
         \<and> parentsOf s' 6 = []
         \<and> strip (nodes s' 7) = scriptNodeOf ''app'' (Some 4)"
    using r c' g k7 by blast
  show ?thesis
    by (intro conjI) (rule h0 h1 h2 h3 h4 h5 h6 h7 h8 h9 snb tg e)+
qed

text \<open>
  The claim as stated fails for the whole reconciliation when styles are extracted: with
  the \<open>STYLE\<close> marker at index 0 and the \<open>SCRIPT\<close> marker at index 1 of the body and
  the required list \<open>[a, b]\<close>, the body ends as two link nodes followed by the two script
  nodes, so a link node stands at the script marker's former index.
\<close>

theorem C4_counterexample:
  "scriptInjectCommentNode (fst bothMarkersState) = Some 5
   \<and> bodyChildren (fst bothMarkersState) (snd bothMarkersState) = [4, 5]
   \<and> map_sum id bodyNames (ensureRequires True 0 bothMarkersState)
       = Inr [''link'', ''link'', ''script'', ''script'']"
  by code_simp

subsection \<open>The injected scripts in the tree\<close>






subsection \<open>A template without body\<close>

lemma scanChild_body: "bodyNode (scanChild s d n) = bodyNode d"
  by (simp add: scanChild_def Let_def)

lemma scan_body: "bodyNode (findScriptStyleTagComment s cs d) = bodyNode d"
  unfolding findScriptStyleTagComment_def
  by (induction cs arbitrary: d rule: rev_induct) (simp_all add: scanChild_body)

lemma inner_body:
  "bodyNode (findOutAll_inner s d n)
     = (if nodeName (nodes s n) = ''body'' then Some n else bodyNode d)"
  by (simp add: findOutAll_inner_def scan_body)

lemma inner_fold_body:
  "bodyNode (foldl (findOutAll_inner s) d ns)
     = lastOr (bodyNode d) (filter (\<lambda>n. nodeName (nodes s n) = ''body'') ns)"
  by (induction ns arbitrary: d rule: rev_induct) (simp_all add: inner_body lastOr_def)

lemma outer_body:
  "bodyNode (findOutAll_outer s d h)
     = lastOr (bodyNode d)
         (filter (\<lambda>n. nodeName (nodes s n) = ''body'')
            (if nodeName (nodes s h) = ''html'' then childNodes (nodes s h) else []))"
  by (simp add: findOutAll_outer_def inner_fold_body lastOr_def)

lemma outer_fold_body:
  "bodyNode (foldl (findOutAll_outer s) d hs)
     = lastOr (bodyNode d)
         (filter (\<lambda>n. nodeName (nodes s n) = ''body'')
            (concat (map (\<lambda>h. if nodeName (nodes s h) = ''html'' then childNodes (nodes s h) else [])
                       hs)))"
  by (induction hs arbitrary: d rule: rev_induct)
     (simp_all add: outer_body lastOr_append, simp add: lastOr_def)

lemma clone_null_body: "bodyNode d = None \<Longrightarrow> clone d t = Inl TypeError"
  by (simp add: clone_def Let_def split: option.splits)

lemma serialize_null_body: "bodyNode d = None \<Longrightarrow> \<exists>e. serialize mode ser d t = Inl e"
  by (simp add: serialize_def Let_def bindE_def split: option.splits sum.splits)

lemma ensureRequires_null_body:
  assumes body: "bodyNode d = None"
    and marker: "scriptInjectCommentNode d = None"
    and left: "leftNames (scriptResources d) (arrays t a) \<noteq> []"
  shows "ensureRequires flag a (d, t) = Inl TypeError"
proof -
  define c1 where "c1 = snd (newArray (arrays t a) t)"
  define L where "L = leftNames (scriptResources d) (arrays c1 (nextArray t))"
  have L: "L \<noteq> []" using left by (simp add: L_def c1_def newArray_fields)
  have "pass (\<lambda>x p. newNode (scriptNodeOf x p)) (scriptResources d) None None (nextArray t) c1
          = Inl TypeError"
    unfolding pass_result [of scriptNodeOf L "scriptResources d" c1 "nextArray t"
        "c1\<lparr>arrays := (arrays c1)(nextArray t := L)\<rparr>" "[nextNode c1 ..< nextNode c1 + length L]"
        None None, OF scriptNodeOf_parent L_def refl refl]
    using L by simp
  then have "ensureRequireScripts (nextArray t) d c1 = Inl TypeError"
    by (simp add: ensureRequireScripts_pass mockScriptNode_newNode marker body)
  then show ?thesis
    by (simp add: ensureRequires_def Let_def bindE_def newArray_fields c1_def [symmetric])
qed

text \<open>
  C6, as amended: let the constructor miss the cache, read the template text and get from
  the parser a tree in which no \<open>html\<close> child of the root has a child named \<open>body\<close>.
  Then the scan returns a document whose body anchor is null, and the null anchor is not
  tolerated: the constructor throws a TypeError (in \<open>clone\<close>), and on the scanned
  document \<open>clone\<close> throws a TypeError in every store, \<open>serialize\<close> throws, and
  reconciliation throws a TypeError whenever it has left-over script names and no script
  marker.
\<close>

theorem C6_null_body_not_tolerated:
  assumes miss: "cache (propertyKey templatePath) = None"
    and text_read: "readTemplate e templatePath = Inr content"
    and tree: "alloc None (parse5_parse e content) s = (root, s1)"
    and nobody: "bodyCandidates s1 root = []"
  shows "\<exists>d. findOutAll s1 ((emptyDocument templatePath)
                   \<lparr>htmlTemplateFilePath := map_option (path_resolve e) templatePath,
                    document := Some root\<rparr>) = Inr d
           \<and> bodyNode d = None
           \<and> HTMLDocument_new e templatePath (cache, s) = Inl TypeError
           \<and> (\<forall>t. clone d t = Inl TypeError)
           \<and> (\<forall>mode ser t. \<exists>err. serialize mode ser d t = Inl err)
           \<and> (\<forall>flag a t. scriptInjectCommentNode d = None
                 \<longrightarrow> leftNames (scriptResources d) (arrays t a) \<noteq> []
                 \<longrightarrow> ensureRequires flag a (d, t) = Inl TypeError)"
proof -
  define d0 where "d0 = (emptyDocument templatePath)
                   \<lparr>htmlTemplateFilePath := map_option (path_resolve e) templatePath,
                    document := Some root\<rparr>"
  define d where "d = foldl (findOutAll_outer s1) d0 (childNodes (nodes s1 root))"
  have scan: "findOutAll s1 d0 = Inr d"
    by (simp add: findOutAll_def d0_def d_def)
  have "bodyNode d0 = None" by (simp add: d0_def emptyDocument_def)
  then have body: "bodyNode d = None"
    using nobody by (simp add: d_def outer_fold_body bodyCandidates_def lastOr_def)
  have src: "(case map_option (path_resolve e) templatePath of
               None \<Rightarrow> Inr DefaultHtmlTemplate
             | Some p \<Rightarrow> (case readFileSync e p of None \<Rightarrow> Inl FsError | Some t \<Rightarrow> Inr t))
             = Inr content"
    using text_read by (simp add: readTemplate_def)
  have new: "HTMLDocument_new e templatePath (cache, s) = Inl TypeError"
    unfolding HTMLDocument_new_def Let_def
    by (simp only: fst_conv snd_conv miss option.case src bindE_def sum.case tree
          d0_def [symmetric] scan clone_null_body [OF body])
  show ?thesis
  proof (intro exI [of _ d] conjI allI impI)
    show "findOutAll s1 ((emptyDocument templatePath)
                   \<lparr>htmlTemplateFilePath := map_option (path_resolve e) templatePath,
                    document := Some root\<rparr>) = Inr d"
      using scan by (simp only: d0_def)
    show "bodyNode d = None" by (rule body)
    show "HTMLDocument_new e templatePath (cache, s) = Inl TypeError" by (rule new)
    show "\<And>t. clone d t = Inl TypeError" by (rule clone_null_body [OF body])
    show "\<And>mode ser t. \<exists>err. serialize mode ser d t = Inl err"
      by (rule serialize_null_body [OF body])
    show "\<And>flag a t. scriptInjectCommentNode d = None
            \<Longrightarrow> leftNames (scriptResources d) (arrays t a) \<noteq> []
            \<Longrightarrow> ensureRequires flag a (d, t) = Inl TypeError"
      by (rule ensureRequires_null_body [OF body])
  qed
qed

theorem C6_null_body_not_tolerated_witness:
  "(Map.empty :: string \<Rightarrow> HTMLDocument option) (propertyKey (Some ''/frames.html'')) = None
   \<and> readTemplate exampleEnv (Some ''/frames.html'')
       = Inr ''<html><frameset><frame src=a.html></frameset></html>''
   \<and> parse5_parse exampleEnv ''<html><frameset><frame src=a.html></frameset></html>'' = framesetTree
   \<and> fst (alloc None framesetTree emptyStore) = 0
   \<and> bodyCandidates (snd (alloc None framesetTree emptyStore)) 0 = []
   \<and> HTMLDocument_new exampleEnv (Some ''/frames.html'') (Map.empty, emptyStore) = Inl TypeError
   \<and> (\<exists>d. findOutAll (snd (alloc None framesetTree emptyStore))
               ((emptyDocument (Some ''/frames.html''))
                  \<lparr>htmlTemplateFilePath := Some ''/frames.html'', document := Some 0\<rparr>) = Inr d
          \<and> bodyNode d = None \<and> scriptInjectCommentNode d = None
          \<and> clone d (snd (alloc None framesetTree emptyStore)) = Inl TypeError
          \<and> ensureRequires False 0
               (d, snd (newArray [''app''] (snd (alloc None framesetTree emptyStore))))
              = Inl TypeError)"
proof -
  define content where "content = ''<html><frameset><frame src=a.html></frameset></html>''"
  define s1 where "s1 = snd (alloc None framesetTree emptyStore)"
  define t where "t = snd (newArray [''app''] s1)"
  have h1: "(Map.empty :: string \<Rightarrow> HTMLDocument option) (propertyKey (Some ''/frames.html'')) = None"
    by simp
  have h2: "readTemplate exampleEnv (Some ''/frames.html'') = Inr content"
    unfolding content_def by code_simp
  have h3: "parse5_parse exampleEnv content = framesetTree"
    unfolding content_def by code_simp
  have h4: "fst (alloc None framesetTree emptyStore) = 0" by code_simp
  have h5: "bodyCandidates s1 0 = []" unfolding s1_def by code_simp
  have tree: "alloc None (parse5_parse exampleEnv content) emptyStore = (0, s1)"
    unfolding h3 s1_def h4 [symmetric] by simp
  have pr: "map_option (path_resolve exampleEnv) (Some ''/frames.html'') = Some ''/frames.html''"
    by (simp add: exampleEnv_def)
  from C6_null_body_not_tolerated [OF h1 h2 tree h5, unfolded pr]
  obtain d where
    scan: "findOutAll s1 ((emptyDocument (Some ''/frames.html''))
                  \<lparr>htmlTemplateFilePath := Some ''/frames.html'', document := Some 0\<rparr>) = Inr d"
    and body: "bodyNode d = None"
    and new: "HTMLDocument_new exampleEnv (Some ''/frames.html'') (Map.empty, emptyStore)
                = Inl TypeError"
    and cl: "\<forall>t. clone d t = Inl TypeError"
    and rec: "\<forall>flag a t. scriptInjectCommentNode d = None
                 \<longrightarrow> leftNames (scriptResources d) (arrays t a) \<noteq> []
                 \<longrightarrow> ensureRequires flag a (d, t) = Inl TypeError"
    by blast
  have "map_sum id (\<lambda>d. (scriptInjectCommentNode d, scriptResources d))
          (findOutAll s1 ((emptyDocument (Some ''/frames.html''))
                  \<lparr>htmlTemplateFilePath := Some ''/frames.html'', document := Some 0\<rparr>))
          = Inr (None, [])"
    unfolding s1_def by code_simp
  then have mk: "scriptInjectCommentNode d = None" and rs: "scriptResources d = []"
    by (simp_all add: scan)
  have "arrays t 0 = [''app'']"
    unfolding t_def s1_def by code_simp
  then have left: "leftNames (scriptResources d) (arrays t 0) \<noteq> []"
    by (simp add: rs leftNames_def)
  have e: "\<exists>d. findOutAll s1
               ((emptyDocument (Some ''/frames.html''))
                  \<lparr>htmlTemplateFilePath := Some ''/frames.html'', document := Some 0\<rparr>) = Inr d
          \<and> bodyNode d = None \<and> scriptInjectCommentNode d = None
          \<and> clone d s1 = Inl TypeError
          \<and> ensureRequires False 0 (d, t) = Inl TypeError"
    using scan body mk cl [rule_format, of s1] rec [rule_format, OF mk left, of False]
    by blast
  show ?thesis
    using h1 h2 h3 h4 h5 new e unfolding content_def s1_def t_def
    by (intro conjI)
qed

text \<open>
  The claim as stated fails for the frameset template: the scan of its tree leaves the
  body anchor and the script marker null, reconciling the scanned document with \<open>[app]\<close>
  throws a TypeError instead of tolerating the null anchor, and so does the constructor
  itself, in \<open>clone\<close>.
\<close>

theorem C6_counterexample:
  "map_sum id (\<lambda>ds. (bodyNode (fst ds), scriptInjectCommentNode (fst ds))) framesetScan
     = Inr (None, None)
   \<and> thrown framesetReconcile = Some TypeError
   \<and> thrown (HTMLDocument_new exampleEnv (Some ''/frames.html'') (Map.empty, emptyStore))
       = Some TypeError"
  by code_simp

subsection \<open>Compact serialization\<close>

lemma setValue_fields:
  "nodeName (nodes (setValue n v s) i) = nodeName (nodes s i)"
  "data (nodes (setValue n v s) i) = data (nodes s i)"
  "childNodes (nodes (setValue n v s) i) = childNodes (nodes s i)"
  "text_value (nodes (setValue n v s) i) = (if i = n then v else text_value (nodes s i))"
  by (simp_all add: setValue_def)

lemma setChildNodes_other:
  "nodeName (nodes (setChildNodes p cs s) i) = nodeName (nodes s i)"
  "data (nodes (setChildNodes p cs s) i) = data (nodes s i)"
  "text_value (nodes (setChildNodes p cs s) i) = text_value (nodes s i)"
  by (simp_all add: setChildNodes_def)

lemma removable_cong:
  "nodeName (nodes t n) = nodeName (nodes s n) \<Longrightarrow> data (nodes t n) = data (nodes s n) \<Longrightarrow>
   text_value (nodes t n) = text_value (nodes s n) \<Longrightarrow> removable t n = removable s n"
  by (simp add: removable_def)

lemma trimmed_refl: "trimmed p [] s s"
  by (simp add: trimmed_def)

text \<open>Doing one more child \<open>n\<close> first, leaving \<open>s1\<close>, and then the children before it.\<close>

lemma trimmed_step:
  assumes rest: "trimmed p done s1 s'"
    and n: "n \<notin> set done"
    and lists: "\<forall>i. i \<noteq> p \<longrightarrow> childNodes (nodes s1 i) = childNodes (nodes s i)"
    and names: "\<forall>i. nodeName (nodes s1 i) = nodeName (nodes s i) \<and> data (nodes s1 i) = data (nodes s i)"
    and vals: "\<forall>i. text_value (nodes s1 i)
                 = (if i = n \<and> nodeName (nodes s i) = ''#text''
                    then trim (text_value (nodes s i)) else text_value (nodes s i))"
  shows "trimmed p (done @ [n]) s s'"
proof -
  from rest have r1: "\<And>i. i \<noteq> p \<Longrightarrow> childNodes (nodes s' i) = childNodes (nodes s1 i)"
    and r2: "\<And>i. nodeName (nodes s' i) = nodeName (nodes s1 i)"
    and r3: "\<And>i. data (nodes s' i) = data (nodes s1 i)"
    and r4: "\<And>i. text_value (nodes s' i)
                = (if i \<in> set done \<and> nodeName (nodes s1 i) = ''#text''
                   then trim (text_value (nodes s1 i)) else text_value (nodes s1 i))"
    unfolding trimmed_def by blast+
  have a: "\<forall>i. i \<noteq> p \<longrightarrow> childNodes (nodes s' i) = childNodes (nodes s i)"
    using r1 lists by simp
  have b: "\<forall>i. nodeName (nodes s' i) = nodeName (nodes s i) \<and> data (nodes s' i) = data (nodes s i)"
    using r2 r3 names by simp
  have c: "\<forall>i. text_value (nodes s' i)
                = (if i \<in> set (done @ [n]) \<and> nodeName (nodes s i) = ''#text''
                   then trim (text_value (nodes s i)) else text_value (nodes s i))"
  proof
    fix i
    have nm: "nodeName (nodes s1 i) = nodeName (nodes s i)" using names by simp
    have v: "text_value (nodes s1 i)
                 = (if i = n \<and> nodeName (nodes s i) = ''#text''
                    then trim (text_value (nodes s i)) else text_value (nodes s i))"
      using vals by simp
    show "text_value (nodes s' i)
                = (if i \<in> set (done @ [n]) \<and> nodeName (nodes s i) = ''#text''
                   then trim (text_value (nodes s i)) else text_value (nodes s i))"
    proof (cases "i \<in> set done")
      case True
      with n have "i \<noteq> n" by auto
      with True show ?thesis by (simp add: r4 nm v)
    next
      case False
      then show ?thesis by (simp add: r4 v)
    qed
  qed
  from a b c show ?thesis unfolding trimmed_def by blast
qed

lemma removable_same:
  assumes names: "\<forall>i. nodeName (nodes s1 i) = nodeName (nodes s i) \<and> data (nodes s1 i) = data (nodes s i)"
    and vals: "\<forall>i. text_value (nodes s1 i)
                 = (if i = n \<and> nodeName (nodes s i) = ''#text''
                    then trim (text_value (nodes s i)) else text_value (nodes s i))"
    and n: "n \<notin> set xs"
  shows "filter (\<lambda>m. \<not> removable s1 m) xs = filter (\<lambda>m. \<not> removable s m) xs"
proof (rule filter_cong [OF refl])
  fix m assume "m \<in> set xs"
  with n have "m \<noteq> n" by auto
  with names vals have "removable s1 m = removable s m"
    by (intro removable_cong) simp_all
  then show "(\<not> removable s1 m) = (\<not> removable s m)" by simp
qed

lemma mini_loop_Suc:
  assumes k: "k < length (childNodes (nodes s p))"
  shows "mini_loop p (Suc k) s = mini_loop p k (mini_step p k s)"
proof -
  define cs where "cs = childNodes (nodes s p)"
  define n where "n = cs ! k"
  define v where "v = trim (text_value (nodes s n))"
  have c1: "childNodes (nodes (setValue n v s) p) = cs"
    and v1: "text_value (nodes (setValue n v s) n) = v"
    by (simp_all add: setValue_fields cs_def)
  have sp: "splice (int k) (Suc 0) [] cs = take k cs @ drop (Suc k) cs"
    using k by (simp add: splice_nat cs_def)
  have lhs: "mini_loop p (Suc k) s =
     (if nodeName (nodes s n) = ''#comment'' \<and> \<not> startsWith (data (nodes s n)) (ustr ''[if '') then
        mini_loop p k (setChildNodes p (take k cs @ drop (Suc k) cs) s)
      else if nodeName (nodes s n) = ''#text'' then
        (if v = []
         then mini_loop p k (setChildNodes p (take k cs @ drop (Suc k) cs) (setValue n v s))
         else mini_loop p k (setValue n v s))
      else mini_loop p k s)"
    using k
    by (simp only: mini_loop.simps Let_def cs_def [symmetric] n_def [symmetric] v_def [symmetric]
          c1 v1 sp One_nat_def length_0_conv not_le [symmetric] if_False)
  have rhs: "mini_step p k s =
     (if nodeName (nodes s n) = ''#comment'' \<and> \<not> startsWith (data (nodes s n)) (ustr ''[if '') then
        setChildNodes p (take k cs @ drop (Suc k) cs) s
      else if nodeName (nodes s n) = ''#text'' then
        (if v = []
         then setChildNodes p (take k cs @ drop (Suc k) cs) (setValue n v s)
         else setValue n v s)
      else s)"
    by (simp only: mini_step_def Let_def cs_def [symmetric] n_def [symmetric] v_def [symmetric])
  show ?thesis
    unfolding lhs rhs by (simp only: if_distrib [of "mini_loop p k"])
qed

lemma mini_step_spec:
  assumes k: "k < length (childNodes (nodes s p))"
    and cs: "cs = childNodes (nodes s p)"
    and n: "n = cs ! k"
    and s1: "s1 = mini_step p k s"
  shows "childNodes (nodes s1 p) = take k cs @ (if removable s n then [] else [n]) @ drop (Suc k) cs"
    and "\<forall>i. i \<noteq> p \<longrightarrow> childNodes (nodes s1 i) = childNodes (nodes s i)"
    and "\<forall>i. nodeName (nodes s1 i) = nodeName (nodes s i) \<and> data (nodes s1 i) = data (nodes s i)"
    and "\<forall>i. text_value (nodes s1 i)
                 = (if i = n \<and> nodeName (nodes s i) = ''#text''
                    then trim (text_value (nodes s i)) else text_value (nodes s i))"
proof -
  have idk: "take k cs @ n # drop (Suc k) cs = cs"
    using id_take_nth_drop [of k cs] k by (simp add: cs n)
  have ne: "''#comment'' \<noteq> ''#text''" by simp
  show "childNodes (nodes s1 p) = take k cs @ (if removable s n then [] else [n]) @ drop (Suc k) cs"
    unfolding s1 mini_step_def Let_def cs [symmetric] n [symmetric]
    by (simp add: removable_def setChildNodes_fields setValue_fields idk cs [symmetric])
  show "\<forall>i. i \<noteq> p \<longrightarrow> childNodes (nodes s1 i) = childNodes (nodes s i)"
    unfolding s1 mini_step_def Let_def
    by (simp add: setChildNodes_fields setValue_fields)
  show "\<forall>i. nodeName (nodes s1 i) = nodeName (nodes s i) \<and> data (nodes s1 i) = data (nodes s i)"
    unfolding s1 mini_step_def Let_def
    by (simp add: setChildNodes_other setValue_fields)
  show "\<forall>i. text_value (nodes s1 i)
                 = (if i = n \<and> nodeName (nodes s i) = ''#text''
                    then trim (text_value (nodes s i)) else text_value (nodes s i))"
    unfolding s1 mini_step_def Let_def cs [symmetric] n [symmetric]
    by (simp add: setChildNodes_other setValue_fields)
qed

lemma mini_loop_spec:
  assumes "k \<le> length (childNodes (nodes s p))"
    and "distinct (take k (childNodes (nodes s p)))"
  shows "\<exists>s'. mini_loop p k s = Inr s'
           \<and> childNodes (nodes s' p)
               = filter (\<lambda>n. \<not> removable s n) (take k (childNodes (nodes s p)))
                 @ drop k (childNodes (nodes s p))
           \<and> trimmed p (take k (childNodes (nodes s p))) s s'"
  using assms
proof (induction k arbitrary: s)
  case 0
  show ?case by (simp add: trimmed_refl)
next
  case (Suc k)
  define cs where "cs = childNodes (nodes s p)"
  define n where "n = cs ! k"
  define s1 where "s1 = mini_step p k s"
  have k: "k < length (childNodes (nodes s p))" using Suc.prems(1) by simp
  have kc: "k < length cs" using k by (simp add: cs_def)
  have tk: "take (Suc k) cs = take k cs @ [n]"
    by (simp add: take_Suc_conv_app_nth kc n_def)
  have dist: "distinct (take k cs)" and fresh: "n \<notin> set (take k cs)"
    using Suc.prems(2) by (simp_all add: cs_def [symmetric] tk)
  note step = mini_loop_Suc [OF k, folded s1_def]
  note sp = mini_step_spec [OF k cs_def n_def s1_def]
  have lk: "length (take k cs) = k" using kc by simp
  have t1: "take k (childNodes (nodes s1 p)) = take k cs"
    using kc by (simp add: sp(1) min_def)
  have d1: "drop k (childNodes (nodes s1 p)) = (if removable s n then [] else [n]) @ drop (Suc k) cs"
    using kc by (simp add: sp(1) min_def)
  have pre1: "k \<le> length (childNodes (nodes s1 p))"
    unfolding sp(1) length_append lk by (rule le_add1)
  have pre2: "distinct (take k (childNodes (nodes s1 p)))"
    using dist by (simp add: t1)
  note pre = pre1 pre2
  from Suc.IH [OF pre] obtain s' where
    run: "mini_loop p k s1 = Inr s'"
    and c': "childNodes (nodes s' p)
               = filter (\<lambda>n. \<not> removable s1 n) (take k (childNodes (nodes s1 p)))
                 @ drop k (childNodes (nodes s1 p))"
    and tr: "trimmed p (take k (childNodes (nodes s1 p))) s1 s'"
    by blast
  have f: "filter (\<lambda>m. \<not> removable s1 m) (take k cs) = filter (\<lambda>m. \<not> removable s m) (take k cs)"
    by (rule removable_same [OF sp(3) sp(4) fresh])
  have "childNodes (nodes s' p)
          = filter (\<lambda>n. \<not> removable s n) (take (Suc k) cs) @ drop (Suc k) cs"
    by (simp add: c' t1 d1 f tk)
  moreover have "trimmed p (take (Suc k) cs) s s'"
    unfolding tk using tr [unfolded t1] fresh sp(2) sp(3) sp(4) by (rule trimmed_step)
  ultimately show ?case
    using step run by (simp add: cs_def)
qed

lemma mini_spec:
  assumes "distinct (childNodes (nodes s p))"
  shows "\<exists>s'. mini p s = Inr s'
           \<and> childNodes (nodes s' p) = filter (\<lambda>n. \<not> removable s n) (childNodes (nodes s p))
           \<and> trimmed p (childNodes (nodes s p)) s s'"
  using mini_loop_spec [of "length (childNodes (nodes s p))" s p] assms
  by (simp add: mini_def)

text \<open>
  C5, as amended: compact serialization removes from the child lists of head and body
  themselves (not from deeper levels) every text node that is blank after trimming and
  every comment whose text does not begin with \<open>[if \<close>, and trims the value of every
  text node among those children; the child list of every other node, every node name
  and comment text, and the value of every other text node stay as they were; the output
  is the printer's rendering of the resulting tree.
\<close>

theorem C5_compact_top_level:
  assumes h: "headNode d = Some h" and b: "bodyNode d = Some b" and hb: "h \<noteq> b"
    and dist: "distinct (childNodes (nodes s h) @ childNodes (nodes s b))"
  shows "\<exists>s'. serialize True ser d s = Inr (ser s' (document d), s')
           \<and> childNodes (nodes s' h) = filter (\<lambda>n. \<not> removable s n) (childNodes (nodes s h))
           \<and> childNodes (nodes s' b) = filter (\<lambda>n. \<not> removable s n) (childNodes (nodes s b))
           \<and> (\<forall>i. i \<noteq> h \<longrightarrow> i \<noteq> b \<longrightarrow> childNodes (nodes s' i) = childNodes (nodes s i))
           \<and> (\<forall>i. nodeName (nodes s' i) = nodeName (nodes s i) \<and> data (nodes s' i) = data (nodes s i))
           \<and> (\<forall>i. text_value (nodes s' i)
                     = (if i \<in> set (childNodes (nodes s h) @ childNodes (nodes s b))
                           \<and> nodeName (nodes s i) = ''#text''
                        then trim (text_value (nodes s i)) else text_value (nodes s i)))"
proof -
  define ch where "ch = childNodes (nodes s h)"
  define cb where "cb = childNodes (nodes s b)"
  have dh: "distinct ch" and db: "distinct cb" and disj: "set ch \<inter> set cb = {}"
    using dist by (simp_all add: ch_def cb_def)
  from mini_spec [of s h] dh obtain s1 where
    m1: "mini h s = Inr s1"
    and c1: "childNodes (nodes s1 h) = filter (\<lambda>n. \<not> removable s n) ch"
    and t1: "trimmed h ch s s1"
    by (auto simp: ch_def)
  from t1 have l1: "\<And>i. i \<noteq> h \<Longrightarrow> childNodes (nodes s1 i) = childNodes (nodes s i)"
    and n1: "\<And>i. nodeName (nodes s1 i) = nodeName (nodes s i)"
    and d1: "\<And>i. data (nodes s1 i) = data (nodes s i)"
    and v1: "\<And>i. text_value (nodes s1 i)
                = (if i \<in> set ch \<and> nodeName (nodes s i) = ''#text''
                   then trim (text_value (nodes s i)) else text_value (nodes s i))"
    unfolding trimmed_def by blast+
  have cb1: "childNodes (nodes s1 b) = cb"
    using hb by (simp add: l1 cb_def)
  from mini_spec [of s1 b] db obtain s2 where
    m2: "mini b s1 = Inr s2"
    and c2: "childNodes (nodes s2 b) = filter (\<lambda>n. \<not> removable s1 n) cb"
    and t2: "trimmed b cb s1 s2"
    by (auto simp: cb1)
  from t2 have l2: "\<And>i. i \<noteq> b \<Longrightarrow> childNodes (nodes s2 i) = childNodes (nodes s1 i)"
    and n2: "\<And>i. nodeName (nodes s2 i) = nodeName (nodes s1 i)"
    and d2: "\<And>i. data (nodes s2 i) = data (nodes s1 i)"
    and v2: "\<And>i. text_value (nodes s2 i)
                = (if i \<in> set cb \<and> nodeName (nodes s1 i) = ''#text''
                   then trim (text_value (nodes s1 i)) else text_value (nodes s1 i))"
    unfolding trimmed_def by blast+
  have same: "filter (\<lambda>n. \<not> removable s1 n) cb = filter (\<lambda>n. \<not> removable s n) cb"
  proof (rule filter_cong [OF refl])
    fix m assume "m \<in> set cb"
    with disj have "m \<notin> set ch" by auto
    then have "text_value (nodes s1 m) = text_value (nodes s m)" by (simp add: v1)
    then have "removable s1 m = removable s m"
      by (intro removable_cong) (simp_all add: n1 d1)
    then show "(\<not> removable s1 m) = (\<not> removable s m)" by simp
  qed
  have run: "serialize True ser d s = Inr (ser s2 (document d), s2)"
    by (simp add: serialize_def h b m1 m2 bindE_def)
  have r1: "childNodes (nodes s2 h) = filter (\<lambda>n. \<not> removable s n) (childNodes (nodes s h))"
    using hb by (simp add: l2 c1 ch_def)
  have r2: "childNodes (nodes s2 b) = filter (\<lambda>n. \<not> removable s n) (childNodes (nodes s b))"
    using same by (simp add: c2 cb_def)
  have r3: "\<forall>i. i \<noteq> h \<longrightarrow> i \<noteq> b \<longrightarrow> childNodes (nodes s2 i) = childNodes (nodes s i)"
    by (simp add: l1 l2)
  have r4: "\<forall>i. nodeName (nodes s2 i) = nodeName (nodes s i) \<and> data (nodes s2 i) = data (nodes s i)"
    by (simp add: n1 n2 d1 d2)
  have r5: "\<forall>i. text_value (nodes s2 i)
                     = (if i \<in> set (childNodes (nodes s h) @ childNodes (nodes s b))
                           \<and> nodeName (nodes s i) = ''#text''
                        then trim (text_value (nodes s i)) else text_value (nodes s i))"
  proof
    fix i
    show "text_value (nodes s2 i)
                     = (if i \<in> set (childNodes (nodes s h) @ childNodes (nodes s b))
                           \<and> nodeName (nodes s i) = ''#text''
                        then trim (text_value (nodes s i)) else text_value (nodes s i))"
    proof (cases "i \<in> set cb")
      case True
      with disj have "i \<notin> set ch" by auto
      with True show ?thesis
        by (simp add: v2 v1 n1 ch_def [symmetric] cb_def [symmetric])
    next
      case False
      then show ?thesis
        by (simp add: v2 v1 ch_def [symmetric] cb_def [symmetric])
    qed
  qed
  show ?thesis
    by (rule exI [of _ s2], intro conjI) (rule run r1 r2 r3 r4 r5)+
qed

theorem C5_compact_top_level_witness:
  "headNode (fst nestedState) = Some 2 \<and> bodyNode (fst nestedState) = Some 3 \<and> (2::nat) \<noteq> 3
   \<and> distinct (childNodes (nodes (snd nestedState) 2) @ childNodes (nodes (snd nestedState) 3))
   \<and> childNodes (nodes (snd nestedState) 3) = [4, 7, 8, 9]
   \<and> (\<exists>s'. serialize True (\<lambda>_ _. []) (fst nestedState) (snd nestedState) = Inr ([], s')
         \<and> childNodes (nodes s' 2) = []
         \<and> childNodes (nodes s' 3) = [4, 8]
         \<and> childNodes (nodes s' 4) = childNodes (nodes (snd nestedState) 4)
         \<and> text_value (nodes s' 8) = ustr ''x'')"
proof -
  have h: "headNode (fst nestedState) = Some 2" by code_simp
  have b: "bodyNode (fst nestedState) = Some 3" by code_simp
  have hb: "(2::nat) \<noteq> 3" by simp
  have dist: "distinct (childNodes (nodes (snd nestedState) 2) @ childNodes (nodes (snd nestedState) 3))"
    by code_simp
  have cb: "childNodes (nodes (snd nestedState) 3) = [4, 7, 8, 9]" by code_simp
  have f2: "filter (\<lambda>n. \<not> removable (snd nestedState) n) (childNodes (nodes (snd nestedState) 2)) = []"
    by code_simp
  have f3: "filter (\<lambda>n. \<not> removable (snd nestedState) n) (childNodes (nodes (snd nestedState) 3)) = [4, 8]"
    by code_simp
  have v8: "(if 8 \<in> set (childNodes (nodes (snd nestedState) 2) @ childNodes (nodes (snd nestedState) 3))
                \<and> nodeName (nodes (snd nestedState) 8) = ''#text''
             then trim (text_value (nodes (snd nestedState) 8))
             else text_value (nodes (snd nestedState) 8)) = ustr ''x''"
    by code_simp
  from C5_compact_top_level [OF h b hb dist, of "\<lambda>_ _. []"] obtain s' where
    r: "serialize True (\<lambda>_ _. []) (fst nestedState) (snd nestedState) = Inr ([], s')"
    and c2: "childNodes (nodes s' 2)
               = filter (\<lambda>n. \<not> removable (snd nestedState) n) (childNodes (nodes (snd nestedState) 2))"
    and c3: "childNodes (nodes s' 3)
               = filter (\<lambda>n. \<not> removable (snd nestedState) n) (childNodes (nodes (snd nestedState) 3))"
    and o: "\<forall>i. i \<noteq> 2 \<longrightarrow> i \<noteq> 3 \<longrightarrow> childNodes (nodes s' i) = childNodes (nodes (snd nestedState) i)"
    and v: "\<forall>i. text_value (nodes s' i)
                     = (if i \<in> set (childNodes (nodes (snd nestedState) 2)
                                     @ childNodes (nodes (snd nestedState) 3))
                           \<and> nodeName (nodes (snd nestedState) i) = ''#text''
                        then trim (text_value (nodes (snd nestedState) i))
                        else text_value (nodes (snd nestedState) i))"
    by blast
  have c4: "childNodes (nodes s' 4) = childNodes (nodes (snd nestedState) 4)"
    using o [rule_format, of 4] by simp
  have t8: "text_value (nodes s' 8) = ustr ''x''"
    using v [rule_format, of 8] v8 by (simp only:)
  have e: "\<exists>s'. serialize True (\<lambda>_ _. []) (fst nestedState) (snd nestedState) = Inr ([], s')
         \<and> childNodes (nodes s' 2) = []
         \<and> childNodes (nodes s' 3) = [4, 8]
         \<and> childNodes (nodes s' 4) = childNodes (nodes (snd nestedState) 4)
         \<and> text_value (nodes s' 8) = ustr ''x''"
    using r c2 [unfolded f2] c3 [unfolded f3] c4 t8 by blast
  show ?thesis
    by (intro conjI) (rule h b hb dist cb e)+
qed

text \<open>
  The claim as stated fails below the first level: the comment and the blank text node
  inside the \<open>div\<close> of the body are still there after compact serialization, and the
  blank text node is not trimmed, while the body's own comment and its text node of white
  space are gone and its text node \<open>x\<close> is trimmed.
\<close>

theorem C5_counterexample:
  "map_sum id compactView (serialize True (\<lambda>_ _. []) (fst nestedState) (snd nestedState))
     = Inr ([''div'', ''#text''], [''#comment'', ''#text''], ustr '' '', ustr ''x'')"
  by code_simp

end
